theory Spec2Isabelle
  imports Main "HOL-Library.Multiset"
begin

section \<open>Data model (src/lib/socket.ts, src/pages/ChatRoom.tsx)\<close>

text \<open>
  A \<open>Date\<close> is represented by its time value, which \<open>getTime()\<close> returns: the number of
  milliseconds since the epoch, or NaN for an invalid date, written \<open>None\<close>. The timestamp of
  a message as the server sent it has the same type: \<open>Some n\<close> is a value that denotes \<open>n\<close>
  milliseconds, \<open>None\<close> a value that is missing or cannot be parsed. \<open>new Date\<close> gives an
  invalid date for the latter and for a number beyond 8640000000000000 milliseconds on
  either side of the epoch, and keeps the time value of a valid date.
\<close>

type_synonym time_value = "int option"

definition new_Date :: "time_value \<Rightarrow> time_value" where
  "new_Date v =
     (case v of
        None \<Rightarrow> None
      | Some n \<Rightarrow>
          if - 8640000000000000 \<le> n \<and> n \<le> 8640000000000000 then Some n else None)"

datatype role = User | Assistant

text \<open>\<open>interface ChatMessage\<close>; the field \<open>id\<close> is called \<open>msg_id\<close> here.\<close>

record ChatMessage =
  msg_id :: string
  userId :: string
  userName :: string
  userPhotoURL :: "string option"
  content :: string
  role :: role
  timestamp :: time_value
  isTyping :: "bool option"
  isError :: "bool option"

text \<open>\<open>interface RoomUser\<close>; the fields \<open>id\<close> and \<open>name\<close> are called \<open>user_id\<close> and \<open>user_name\<close>.\<close>

record RoomUser =
  user_id :: string
  user_name :: string
  photoURL :: "string option"
  socketId :: "string option"
  avatarColor :: "string option"

record ChatInfo =
  title :: string
  description :: "string option"
  createdAt :: time_value

text \<open>\<open>interface RoomData\<close>, the payload of \<open>room-history\<close>.\<close>

record RoomData =
  rd_roomId :: string
  rd_users :: "RoomUser list"
  rd_messages :: "ChatMessage list"
  rd_chatInfo :: "ChatInfo option"

text \<open>The value type of the \<open>typingUsers\<close> map.\<close>

record typing_info =
  ti_name :: string
  ti_photoURL :: "string option"


section \<open>Array operations used by the handlers\<close>

text \<open>
  \<open>Array.prototype.findIndex\<close>: the index of the first element that satisfies the
  predicate, and \<open>-1\<close> when there is none.
\<close>

fun findIndex :: "('a \<Rightarrow> bool) \<Rightarrow> 'a list \<Rightarrow> int" where
  "findIndex P [] = - 1"
| "findIndex P (x # xs) =
     (if P x then 0
      else (let i = findIndex P xs in if i < 0 then - 1 else i + 1))"

text \<open>
  \<open>Array.prototype.sort(compareFn)\<close> is a stable sort. The comparator returns a number,
  \<open>None\<close> standing for NaN, and the sort takes a NaN for \<open>+0\<close>: the two elements count as
  equal. With a consistent comparator the result is the one stable sorted arrangement of the
  array, which the insertion sort below computes: an element is placed before the first
  element that the comparator does not put it after, and the elements are inserted from the
  last to the first. With an invalid date among valid ones the comparator is not consistent
  and the order is left to the engine; the model gives the order of this insertion sort, in
  which an element stays before a later element that it compares as NaN with.
\<close>

definition sort_order :: "int option \<Rightarrow> int" where
  "sort_order v = (case v of None \<Rightarrow> 0 | Some n \<Rightarrow> n)"

fun js_insert :: "('a \<Rightarrow> 'a \<Rightarrow> int option) \<Rightarrow> 'a \<Rightarrow> 'a list \<Rightarrow> 'a list" where
  "js_insert cmp x [] = [x]"
| "js_insert cmp x (y # ys) =
     (if sort_order (cmp x y) \<le> 0 then x # y # ys else y # js_insert cmp x ys)"

definition js_sort :: "('a \<Rightarrow> 'a \<Rightarrow> int option) \<Rightarrow> 'a list \<Rightarrow> 'a list" where
  "js_sort cmp xs = foldr (js_insert cmp) xs []"

text \<open>
  The comparator \<open>(a, b) => a.timestamp.getTime() - b.timestamp.getTime()\<close>: the difference
  of two time values, and NaN when one of them is NaN. (The difference of two time values
  in floating point has the sign of their exact difference.)
\<close>

definition by_timestamp :: "ChatMessage \<Rightarrow> ChatMessage \<Rightarrow> int option" where
  "by_timestamp a b =
     (case timestamp a of
        None \<Rightarrow> None
      | Some x \<Rightarrow> (case timestamp b of None \<Rightarrow> None | Some y \<Rightarrow> Some (x - y)))"

text \<open>
  A message as sent has a valid date when \<open>new Date\<close> of its timestamp is one. A list of
  messages is ascending when, of any two of its messages, the time value of the earlier one
  is \<open><=\<close> that of the later one; the comparison is false when a time value is NaN.
\<close>

definition valid_date :: "ChatMessage \<Rightarrow> bool" where
  "valid_date m = (new_Date (timestamp m) \<noteq> None)"

definition before_or_at :: "ChatMessage \<Rightarrow> ChatMessage \<Rightarrow> bool" where
  "before_or_at a b =
     (case timestamp a of
        None \<Rightarrow> False
      | Some x \<Rightarrow> (case timestamp b of None \<Rightarrow> False | Some y \<Rightarrow> x \<le> y))"

definition ascending :: "ChatMessage list \<Rightarrow> bool" where
  "ascending ms = sorted_wrt before_or_at ms"

text \<open>\<open>{...msg, timestamp: new Date(msg.timestamp)}\<close>\<close>

definition with_Date :: "ChatMessage \<Rightarrow> ChatMessage" where
  "with_Date msg = msg\<lparr>timestamp := new_Date (timestamp msg)\<rparr>"

text \<open>
  The reduction that the \<open>room-history\<close>, \<open>user-joined\<close> and \<open>user-left\<close> handlers run
  on the user list they receive: a user is pushed unless the accumulator already has one
  with the same id.
\<close>

definition push_unique :: "RoomUser list \<Rightarrow> RoomUser \<Rightarrow> RoomUser list" where
  "push_unique acc u =
     (if \<not> list_ex (\<lambda>v. user_id v = user_id u) acc then acc @ [u] else acc)"

definition uniqueUsers :: "RoomUser list \<Rightarrow> RoomUser list" where
  "uniqueUsers us = foldl push_unique [] us"


section \<open>The message list updaters of ChatRoom.tsx\<close>

text \<open>The updater passed to \<open>setMessages\<close> by the \<open>new-message\<close> handler.\<close>

definition on_new_message :: "ChatMessage list \<Rightarrow> ChatMessage \<Rightarrow> ChatMessage list" where
  "on_new_message prev message =
     (let messageIndex = findIndex (\<lambda>m. msg_id m = msg_id message) prev in
      if messageIndex \<ge> 0 then prev[nat messageIndex := with_Date message]
      else js_sort by_timestamp (prev @ [with_Date message]))"

text \<open>The updater passed to \<open>setMessages\<close> by the \<open>ai-typing\<close> handler.\<close>

definition on_ai_typing :: "ChatMessage list \<Rightarrow> ChatMessage \<Rightarrow> ChatMessage list" where
  "on_ai_typing prev message = prev @ [with_Date message]"

text \<open>The list that the \<open>room-history\<close> handler passes to \<open>setMessages\<close>.\<close>

definition history_messages :: "RoomData \<Rightarrow> ChatMessage list" where
  "history_messages data = js_sort by_timestamp (map with_Date (rd_messages data))"

text \<open>
  A message with the given id, timestamp in milliseconds and content, for concrete runs.
\<close>

definition mk_message :: "string \<Rightarrow> int \<Rightarrow> string \<Rightarrow> ChatMessage" where
  "mk_message i t c =
     \<lparr>msg_id = i, userId = ''u1'', userName = ''Ann'', userPhotoURL = None, content = c,
      role = User, timestamp = Some t, isTyping = None, isError = None\<rparr>"


section \<open>The client state\<close>

text \<open>The fields of the Firebase \<open>User\<close> that \<open>actuallyJoinRoom\<close> reads.\<close>

record fb_user =
  uid :: string
  displayName :: "string option"
  email :: "string option"
  fb_photoURL :: "string option"

text \<open>The object \<open>safeUser\<close> built by \<open>actuallyJoinRoom\<close>.\<close>

record safe_user =
  su_uid :: string
  su_displayName :: string
  su_email :: "string option"
  su_photoURL :: "string option"

text \<open>The events that the client emits on the socket, with their payloads.\<close>

datatype out_event =
    JoinRoom string "safe_user option"
  | LeaveRoom string
  | SendMessage string "string option" string role
  | UserTyping string
  | UserStoppedTyping string
  | RequestAiResponse string string
  | UserDeletedChat string string

text \<open>
  The callbacks given to \<open>setTimeout\<close>, each with the variables its closure captured:
  the delayed join of \<open>joinRoom\<close>, the idle timeout of \<open>handleInputChange\<close>, and the abort
  of the request of \<open>deleteUserChat\<close>.
\<close>

datatype timer_action =
    DelayedJoin string "fb_user option"
  | TypingIdle "string option"
  | AbortFetch

record timer =
  tm_id :: nat
  tm_due :: nat
  tm_action :: timer_action

text \<open>
  One state for the single-threaded client: the clock in milliseconds and the pending timers
  of the event loop, the log of emitted socket events with the time of each, the module
  variables of socket.ts (\<open>socket\<close> is true when the variable holds a socket,
  \<open>currentRoomId\<close>, and the entry \<open>currentUser\<close> of the local storage), and the state and
  the ref of the ChatRoom component. \<open>None\<close> stands for \<open>null\<close> and \<open>undefined\<close>.
\<close>

record world =
  now :: nat
  timers :: "timer list"
  next_timer_id :: nat
  outbound :: "(nat \<times> out_event) list"
  socket :: bool
  currentRoomId :: "string option"
  stored_currentUser :: "safe_user option"
  messages :: "ChatMessage list"
  roomUsers :: "RoomUser list"
  typingUsers :: "string \<rightharpoonup> typing_info"
  chatInfo :: ChatInfo
  isLoading :: bool
  inputValue :: string
  roomId :: "string option"
  typingTimeoutRef :: "nat option"

text \<open>The truth value of a string that may be null: null and the empty string are falsy.\<close>

definition truthy :: "string option \<Rightarrow> bool" where
  "truthy v = (case v of None \<Rightarrow> False | Some s \<Rightarrow> s \<noteq> [])"

text \<open>
  \<open>String.prototype.trim\<close>. A string is the list of its code units, for text within the
  first 256 code points; the white space and line terminators among these are space, tab,
  line feed, vertical tab, form feed, carriage return and the no-break space.
\<close>

definition is_space :: "char \<Rightarrow> bool" where
  "is_space c =
     (c \<in> set [CHR '' '', CHR 0x09, CHR 0x0A, CHR 0x0B, CHR 0x0C, CHR 0x0D, CHR 0xA0])"

definition js_trim :: "string \<Rightarrow> string" where
  "js_trim s = rev (dropWhile is_space (rev (dropWhile is_space s)))"

text \<open>
  \<open>setTimeout\<close> returns the id of the new timer, \<open>clearTimeout\<close> removes the timer with
  the given id. A timer id is a positive number in the browser, so that a ref that holds
  one is truthy.
\<close>

definition setTimeout :: "timer_action \<Rightarrow> nat \<Rightarrow> world \<Rightarrow> nat \<times> world" where
  "setTimeout a delay w =
     (next_timer_id w,
      w\<lparr>timers := timers w @ [\<lparr>tm_id = next_timer_id w, tm_due = now w + delay, tm_action = a\<rparr>],
        next_timer_id := Suc (next_timer_id w)\<rparr>)"

definition clearTimeout :: "nat \<Rightarrow> world \<Rightarrow> world" where
  "clearTimeout tid w = w\<lparr>timers := filter (\<lambda>t. tm_id t \<noteq> tid) (timers w)\<rparr>"


section \<open>socket.ts\<close>

text \<open>\<open>initSocket\<close>: a socket is created when the module has none.\<close>

definition initSocket :: "world \<Rightarrow> world" where
  "initSocket w = (if \<not> socket w then w\<lparr>socket := True\<rparr> else w)"

text \<open>\<open>socket?.emit(...)\<close>: the event is sent when there is a socket.\<close>

definition emit :: "out_event \<Rightarrow> world \<Rightarrow> world" where
  "emit ev w = (if socket w then w\<lparr>outbound := outbound w @ [(now w, ev)]\<rparr> else w)"

definition safeUser :: "fb_user option \<Rightarrow> safe_user option" where
  "safeUser user =
     (case user of
        None \<Rightarrow> None
      | Some u \<Rightarrow>
          Some \<lparr>su_uid = uid u,
                su_displayName = (if truthy (displayName u) then the (displayName u) else ''User''),
                su_email = email u,
                su_photoURL = fb_photoURL u\<rparr>)"

definition actuallyJoinRoom :: "string \<Rightarrow> fb_user option \<Rightarrow> world \<Rightarrow> world" where
  "actuallyJoinRoom rid user w =
     (let w1 = w\<lparr>currentRoomId := Some rid\<rparr>;
          w2 = (case safeUser user of
                  Some s \<Rightarrow> w1\<lparr>stored_currentUser := Some s\<rparr>
                | None \<Rightarrow> w1)
      in emit (JoinRoom rid (safeUser user)) w2)"

definition joinRoom :: "string \<Rightarrow> fb_user option \<Rightarrow> world \<Rightarrow> world" where
  "joinRoom rid user w =
     (let w1 = (if \<not> socket w then initSocket w else w) in
      if truthy (currentRoomId w1) \<and> currentRoomId w1 \<noteq> Some rid
      then (let w2 = emit (LeaveRoom (the (currentRoomId w1))) w1
            in snd (setTimeout (DelayedJoin rid user) 100 w2))
      else actuallyJoinRoom rid user w1)"

definition sendTypingIndicator :: "string \<Rightarrow> world \<Rightarrow> world" where
  "sendTypingIndicator rid w =
     emit (UserTyping rid) (if \<not> socket w then initSocket w else w)"

definition sendStoppedTypingIndicator :: "string \<Rightarrow> world \<Rightarrow> world" where
  "sendStoppedTypingIndicator rid w =
     emit (UserStoppedTyping rid) (if \<not> socket w then initSocket w else w)"

definition sendMessage :: "string \<Rightarrow> string \<Rightarrow> role \<Rightarrow> string option \<Rightarrow> world \<Rightarrow> world" where
  "sendMessage rid text r messageId w =
     emit (SendMessage rid messageId text r) (if \<not> socket w then initSocket w else w)"

definition requestAIResponse :: "string \<Rightarrow> string \<Rightarrow> world \<Rightarrow> world" where
  "requestAIResponse rid prompt w =
     emit (RequestAiResponse rid prompt) (if \<not> socket w then initSocket w else w)"

text \<open>
  The handlers that \<open>initSocket\<close> registers for \<open>connect\<close> and \<open>reconnect_failed\<close>: on a
  connect the client joins the remembered room again, with the user of the local storage.
\<close>

definition on_connect :: "world \<Rightarrow> world" where
  "on_connect w =
     (if truthy (currentRoomId w)
      then emit (JoinRoom (the (currentRoomId w)) (stored_currentUser w)) w
      else w)"

definition on_reconnect_failed :: "world \<Rightarrow> world" where
  "on_reconnect_failed w = w\<lparr>socket := False\<rparr>"


text \<open>
  The outcome of an awaited promise is a value or the error it was rejected with; \<open>then_do\<close>
  sequences two steps of a \<open>try\<close> block and \<open>try_catch\<close> is the block with its handler.
\<close>

datatype js_error = TypeError | SyntaxError | NetworkError | AbortError

datatype json = JNull | JBool bool | JNum int | JStr string | JArr "json list"
  | JObj "(string \<times> json) list"

datatype js_val = Undefined | Val json

definition then_do :: "js_error + 'a \<Rightarrow> ('a \<Rightarrow> js_error + 'b) \<Rightarrow> js_error + 'b" where
  "then_do r f = (case r of Inl e \<Rightarrow> Inl e | Inr v \<Rightarrow> f v)"

definition try_catch :: "js_error + 'a \<Rightarrow> (js_error \<Rightarrow> js_error + 'a) \<Rightarrow> js_error + 'a" where
  "try_catch body handler = (case body of Inl e \<Rightarrow> handler e | Inr v \<Rightarrow> Inr v)"

text \<open>
  What the client reads of a \<open>Response\<close>: \<open>ok\<close>, \<open>status\<close>, the outcome of \<open>text()\<close>, and
  the outcome of parsing the body as JSON (by \<open>json()\<close>, or by \<open>JSON.parse\<close> on the text).
\<close>

record http_response =
  resp_ok :: bool
  resp_status :: nat
  resp_text :: "js_error + string"
  resp_json :: "js_error + json"

text \<open>
  \<open>data.exists\<close>: reading a property of \<open>null\<close> throws a TypeError, an object gives the
  value of its last entry with that key or \<open>undefined\<close>, any other value gives \<open>undefined\<close>.
\<close>

fun get_exists :: "json \<Rightarrow> js_error + js_val" where
  "get_exists JNull = Inl TypeError"
| "get_exists (JObj kvs) =
     Inr (case map_of (rev kvs) ''exists'' of None \<Rightarrow> Undefined | Some v \<Rightarrow> Val v)"
| "get_exists (JBool b) = Inr Undefined"
| "get_exists (JNum n) = Inr Undefined"
| "get_exists (JStr s) = Inr Undefined"
| "get_exists (JArr vs) = Inr Undefined"

text \<open>\<open>checkRoomExists\<close>, as a function of the outcome of the \<open>fetch\<close> it awaits.\<close>

definition checkRoomExists :: "js_error + http_response \<Rightarrow> js_error + js_val" where
  "checkRoomExists fetched =
     try_catch
       (then_do fetched (\<lambda>response.
        then_do (resp_json response) (\<lambda>data.
        get_exists data)))
       (\<lambda>error. Inr (Val (JBool False)))"

text \<open>
  \<open>deleteUserChat\<close> runs up to the \<open>await\<close> of the DELETE request, and is resumed with the
  outcome of the request: a response, or the error the request was rejected with
  (\<open>AbortError\<close> when the timer of 10 seconds has aborted it).
\<close>

definition deleteUserChat_start :: "string \<Rightarrow> string \<Rightarrow> world \<Rightarrow> nat \<times> world" where
  "deleteUserChat_start userId' rid w =
     (let w1 = (if \<not> socket w then initSocket w else w);
          w2 = emit (LeaveRoom rid) w1;
          w3 = (if currentRoomId w2 = Some rid then w2\<lparr>currentRoomId := None\<rparr> else w2)
      in setTimeout AbortFetch 10000 w3)"

definition deleteUserChat_resume ::
  "string \<Rightarrow> string \<Rightarrow> nat \<Rightarrow> js_error + http_response \<Rightarrow> world \<Rightarrow> (js_error + bool) \<times> world" where
  "deleteUserChat_resume userId' rid timeoutId fetched w =
     (case fetched of
        Inr response \<Rightarrow>
          (let w1 = clearTimeout timeoutId w;
               parsed = try_catch
                 (then_do (resp_text response) (\<lambda>responseText.
                    if responseText \<noteq> [] then then_do (resp_json response) (\<lambda>_. Inr ())
                    else Inr ()))
                 (\<lambda>parseError. Inr ())
           in case parsed of
                Inl error \<Rightarrow> (Inr True, w1)
              | Inr _ \<Rightarrow> (Inr True, emit (UserDeletedChat userId' rid) w1))
      | Inl fetchError \<Rightarrow> (Inr True, clearTimeout timeoutId w))"

definition deleteUserChat ::
  "string \<Rightarrow> string \<Rightarrow> js_error + http_response \<Rightarrow> world \<Rightarrow> (js_error + bool) \<times> world" where
  "deleteUserChat userId' rid fetched w =
     (let (timeoutId, w1) = deleteUserChat_start userId' rid w
      in deleteUserChat_resume userId' rid timeoutId fetched w1)"


section \<open>ChatRoom.tsx\<close>

text \<open>
  The handlers of the inbound socket events, on the state of the component. The effects
  that the component runs after a render (scrolling, and deriving a title from the first
  user message) are not part of the handlers, and nothing below is about the chat info.
\<close>

datatype inbound =
    RoomHistory RoomData
  | NewMessage ChatMessage
  | AiTyping ChatMessage
  | UserJoined RoomUser "RoomUser list"
  | UserLeft string string "RoomUser list"

fun deliver :: "inbound \<Rightarrow> world \<Rightarrow> world" where
  "deliver (RoomHistory data) w =
     w\<lparr>messages := history_messages data,
       roomUsers := uniqueUsers (rd_users data),
       chatInfo := (case rd_chatInfo data of
                      Some ci \<Rightarrow> ci\<lparr>createdAt := new_Date (createdAt ci)\<rparr>
                    | None \<Rightarrow> chatInfo w)\<rparr>"
| "deliver (NewMessage message) w =
     w\<lparr>messages := on_new_message (messages w) message,
       isLoading := (if role message = Assistant then False else isLoading w)\<rparr>"
| "deliver (AiTyping message) w =
     w\<lparr>messages := on_ai_typing (messages w) message\<rparr>"
| "deliver (UserJoined u us) w =
     w\<lparr>roomUsers := uniqueUsers us\<rparr>"
| "deliver (UserLeft leaving sid us) w =
     w\<lparr>roomUsers := uniqueUsers us,
       typingUsers := (typingUsers w)(leaving := None)\<rparr>"

definition deliver_all :: "inbound list \<Rightarrow> world \<Rightarrow> world" where
  "deliver_all evs w = foldl (\<lambda>v ev. deliver ev v) w evs"

text \<open>\<open>handleInputChange\<close>, with the new value of the textarea.\<close>

definition handleInputChange :: "string \<Rightarrow> world \<Rightarrow> world" where
  "handleInputChange v w =
     (let w1 = w\<lparr>inputValue := v\<rparr> in
      if js_trim v \<noteq> [] \<and> truthy (roomId w1) then
        (let w2 = sendTypingIndicator (the (roomId w1)) w1;
             w3 = (case typingTimeoutRef w2 of
                     Some tid \<Rightarrow> clearTimeout tid w2
                   | None \<Rightarrow> w2);
             (tid, w4) = setTimeout (TypingIdle (roomId w1)) 2000 w3
         in w4\<lparr>typingTimeoutRef := Some tid\<rparr>)
      else if js_trim v = [] \<and> truthy (roomId w1) then
        (let w2 = (case typingTimeoutRef w1 of
                     Some tid \<Rightarrow> (clearTimeout tid w1)\<lparr>typingTimeoutRef := None\<rparr>
                   | None \<Rightarrow> w1)
         in sendStoppedTypingIndicator (the (roomId w1)) w2)
      else w1)"

text \<open>\<open>handleSubmit\<close>, with the id that \<open>uuidv4()\<close> returns.\<close>

definition handleSubmit :: "string \<Rightarrow> world \<Rightarrow> world" where
  "handleSubmit messageId w =
     (if js_trim (inputValue w) = [] \<or> isLoading w \<or> \<not> truthy (roomId w) then w
      else
        (let w1 = w\<lparr>inputValue := [], isLoading := True\<rparr>;
             w2 = (case typingTimeoutRef w1 of
                     Some tid \<Rightarrow> (clearTimeout tid w1)\<lparr>typingTimeoutRef := None\<rparr>
                   | None \<Rightarrow> w1);
             w3 = sendStoppedTypingIndicator (the (roomId w)) w2;
             w4 = sendMessage (the (roomId w)) (inputValue w) User (Some messageId) w3
         in requestAIResponse (the (roomId w)) (inputValue w) w4))"

text \<open>The \<open>onBlur\<close> handler of the textarea.\<close>

definition onBlur :: "world \<Rightarrow> world" where
  "onBlur w =
     (if truthy (roomId w) \<and> typingTimeoutRef w \<noteq> None
      then sendStoppedTypingIndicator (the (roomId w))
             ((clearTimeout (the (typingTimeoutRef w)) w)\<lparr>typingTimeoutRef := None\<rparr>)
      else w)"


section \<open>The event loop\<close>

text \<open>What a timer does when it fires.\<close>

fun fire :: "timer_action \<Rightarrow> world \<Rightarrow> world" where
  "fire (DelayedJoin rid user) w = actuallyJoinRoom rid user w"
| "fire (TypingIdle rid) w =
     (let w1 = (if truthy rid then sendStoppedTypingIndicator (the rid) w else w)
      in w1\<lparr>typingTimeoutRef := None\<rparr>)"
| "fire AbortFetch w = w"

text \<open>
  The timer that fires next among those due at time \<open>T\<close> or before: the one with the
  earliest due time, and among these the one that was set first.
\<close>

definition earlier :: "timer \<Rightarrow> timer \<Rightarrow> timer" where
  "earlier b t = (if tm_due t < tm_due b then t else b)"

definition next_timer :: "nat \<Rightarrow> timer list \<Rightarrow> timer option" where
  "next_timer T ts =
     (case filter (\<lambda>t. tm_due t \<le> T) ts of
        [] \<Rightarrow> None
      | d # ds \<Rightarrow> Some (foldl earlier d ds))"

text \<open>
  Time passes up to \<open>T\<close>: the due timers fire one after the other, each at its due time.
  No callback of this client sets a timer, so every firing leaves one pending timer less.
\<close>

function run_until :: "nat \<Rightarrow> world \<Rightarrow> world" where
  "run_until T w =
     (case next_timer T (timers w) of
        None \<Rightarrow> w
      | Some t \<Rightarrow>
          run_until T
            (fire (tm_action t)
               (w\<lparr>now := max (now w) (tm_due t), timers := remove1 t (timers w)\<rparr>)))"
  by pat_completeness auto
termination
proof (relation "measure (\<lambda>(T, w). length (timers w))")
  show "wf (measure (\<lambda>(T, w). length (timers w)))" by simp
next
  fix T :: nat and w :: world and t :: timer
  assume nt: "next_timer T (timers w) = Some t"
  have pick: "foldl earlier d ds \<in> set (d # ds)" for d ds
    by (induction ds arbitrary: d) (auto simp: earlier_def)
  have "t \<in> set (filter (\<lambda>t. tm_due t \<le> T) (timers w))"
  proof (cases "filter (\<lambda>t. tm_due t \<le> T) (timers w)")
    case Nil
    with nt show ?thesis by (simp add: next_timer_def)
  next
    case (Cons d ds)
    with nt have "t = foldl earlier d ds" by (simp add: next_timer_def)
    with pick [of d ds] Cons show ?thesis by simp
  qed
  then have mem: "t \<in> set (timers w)" by simp
  have keep: "timers (fire a v) = timers v" for a v
    by (cases a)
      (simp_all add: actuallyJoinRoom_def sendStoppedTypingIndicator_def emit_def initSocket_def
        Let_def split: option.splits)
  from mem have "length (remove1 t (timers w)) < length (timers w)"
    by (simp add: length_remove1) (cases "timers w", simp_all)
  then show "((T, fire (tm_action t)
                 (w\<lparr>now := max (now w) (tm_due t), timers := remove1 t (timers w)\<rparr>)), (T, w))
             \<in> measure (\<lambda>(T, w). length (timers w))"
    by (simp add: keep)
qed

declare run_until.simps [simp del]

definition elapse :: "nat \<Rightarrow> world \<Rightarrow> world" where
  "elapse d w = (run_until (now w + d) w)\<lparr>now := now w + d\<rparr>"

text \<open>A run of keystrokes: each one comes a number of milliseconds after the previous event.\<close>

definition type_keys :: "(nat \<times> string) list \<Rightarrow> world \<Rightarrow> world" where
  "type_keys ks w = foldl (\<lambda>v (gap, val). handleInputChange val (elapse gap v)) w ks"

text \<open>The client when the page has loaded: no socket, no room, nothing pending.\<close>

definition initial_world :: world where
  "initial_world =
     \<lparr>now = 0, timers = [], next_timer_id = 1, outbound = [], socket = False,
      currentRoomId = None, stored_currentUser = None, messages = [], roomUsers = [],
      typingUsers = Map.empty,
      chatInfo = \<lparr>title = ''New Conversation'',
                  description = Some ''Start typing to chat with AI and collaborators'',
                  createdAt = Some 0\<rparr>,
      isLoading = False, inputValue = [], roomId = None, typingTimeoutRef = None\<rparr>"


text \<open>A room user and a snapshot, for concrete runs.\<close>

definition mk_user :: "string \<Rightarrow> string \<Rightarrow> RoomUser" where
  "mk_user i n = \<lparr>user_id = i, user_name = n, photoURL = None, socketId = None, avatarColor = None\<rparr>"

definition mk_snapshot :: "ChatMessage list \<Rightarrow> RoomUser list \<Rightarrow> RoomData" where
  "mk_snapshot ms us = \<lparr>rd_roomId = ''r1'', rd_users = us, rd_messages = ms, rd_chatInfo = None\<rparr>"

text \<open>
  The condition on the server under which ids stay unique: a snapshot repeats no id, and
  an \<open>ai-typing\<close> placeholder carries an id that the list does not hold yet.
\<close>

fun unique_ok :: "inbound \<Rightarrow> ChatMessage list \<Rightarrow> bool" where
  "unique_ok (RoomHistory data) ms = distinct (map msg_id (rd_messages data))"
| "unique_ok (AiTyping m) ms = (msg_id m \<notin> set (map msg_id ms))"
| "unique_ok (NewMessage m) ms = True"
| "unique_ok (UserJoined u us) ms = True"
| "unique_ok (UserLeft leaving sid us) ms = True"

fun served_uniquely :: "inbound list \<Rightarrow> world \<Rightarrow> bool" where
  "served_uniquely [] w = True"
| "served_uniquely (ev # evs) w = (unique_ok ev (messages w) \<and> served_uniquely evs (deliver ev w))"

text \<open>A response with the given status and JSON body, for concrete runs.\<close>

definition mk_response :: "nat \<Rightarrow> js_error + json \<Rightarrow> http_response" where
  "mk_response st body =
     \<lparr>resp_ok = (200 \<le> st \<and> st < 300), resp_status = st, resp_text = Inr ''{}'',
      resp_json = body\<rparr>"

text \<open>
  The state of the typing debouncer while the user is typing in room \<open>r\<close>: the only pending
  timer is the idle timer that the ref holds, due 2000 ms after the present moment.
\<close>

definition armed :: "string \<Rightarrow> world \<Rightarrow> bool" where
  "armed r w =
     (socket w \<and> roomId w = Some r \<and>
      (case typingTimeoutRef w of
         None \<Rightarrow> False
       | Some i \<Rightarrow>
           timers w = [\<lparr>tm_id = i, tm_due = now w + 2000, tm_action = TypingIdle (Some r)\<rparr>]))"

section \<open>Facts about the array operations\<close>

lemma findIndex_lower: "- 1 \<le> findIndex P xs"
  by (induction xs) (auto simp: Let_def)

lemma findIndex_none: "findIndex P xs < 0 \<longleftrightarrow> (\<forall>x \<in> set xs. \<not> P x)"
proof (induction xs)
  case Nil
  show ?case by simp
next
  case (Cons x xs)
  have "- 1 \<le> findIndex P xs" by (rule findIndex_lower)
  with Cons show ?case by (auto simp: Let_def)
qed

lemma findIndex_found:
  assumes "0 \<le> findIndex P xs"
  shows "nat (findIndex P xs) < length xs \<and> P (xs ! nat (findIndex P xs))
         \<and> (\<forall>j < nat (findIndex P xs). \<not> P (xs ! j))"
  using assms
proof (induction xs)
  case Nil
  then show ?case by simp
next
  case (Cons x xs)
  show ?case
  proof (cases "P x")
    case True
    then show ?thesis by simp
  next
    case False
    with Cons.prems have pos: "0 \<le> findIndex P xs"
      by (simp add: Let_def split: if_splits)
    from Cons.IH [OF pos] have ih:
      "nat (findIndex P xs) < length xs" "P (xs ! nat (findIndex P xs))"
      "\<forall>j < nat (findIndex P xs). \<not> P (xs ! j)"
      by simp_all
    have eq: "findIndex P (x # xs) = findIndex P xs + 1"
      using False pos by (simp add: Let_def)
    have n: "nat (findIndex P xs + 1) = Suc (nat (findIndex P xs))"
      using pos by simp
    show ?thesis
      unfolding eq n using ih False by (auto simp: nth_Cons split: nat.splits)
  qed
qed

lemma mset_js_insert: "mset (js_insert cmp x xs) = add_mset x (mset xs)"
  by (induction xs) simp_all

lemma mset_js_sort: "mset (js_sort cmp xs) = mset xs"
  by (induction xs) (simp_all add: js_sort_def mset_js_insert)

lemma set_js_sort: "set (js_sort cmp xs) = set xs"
  using mset_js_sort [of cmp xs] by (rule mset_eq_setD)

lemma js_insert_valid:
  assumes "timestamp x \<noteq> None" and "\<forall>y \<in> set xs. timestamp y \<noteq> None"
  shows "js_insert by_timestamp x xs = insort_key (\<lambda>m. the (timestamp m)) x xs"
  using assms by (induction xs) (auto simp: by_timestamp_def sort_order_def)

lemma js_sort_valid:
  assumes "\<forall>y \<in> set xs. timestamp y \<noteq> None"
  shows "js_sort by_timestamp xs = sort_key (\<lambda>m. the (timestamp m)) xs"
  using assms
proof (induction xs)
  case Nil
  show ?case by (simp add: js_sort_def)
next
  case (Cons x xs)
  from Cons.prems have x: "timestamp x \<noteq> None" and xs: "\<forall>y \<in> set xs. timestamp y \<noteq> None"
    by simp_all
  from Cons.IH [OF xs] have ih: "js_sort by_timestamp xs = sort_key (\<lambda>m. the (timestamp m)) xs" .
  have "js_sort by_timestamp (x # xs) = js_insert by_timestamp x (js_sort by_timestamp xs)"
    by (simp add: js_sort_def)
  also have "\<dots> = insort_key (\<lambda>m. the (timestamp m)) x (js_sort by_timestamp xs)"
    using x xs by (intro js_insert_valid) (simp_all add: set_js_sort)
  finally show ?case by (simp add: ih)
qed

lemma ascending_js_sort:
  assumes "\<forall>y \<in> set xs. timestamp y \<noteq> None"
  shows "ascending (js_sort by_timestamp xs)"
proof -
  let ?tv = "\<lambda>m. the (timestamp m)"
  have "sorted (map ?tv (sort_key ?tv xs))" by simp
  then have "sorted_wrt (\<lambda>a b. ?tv a \<le> ?tv b) (sort_key ?tv xs)"
    by (simp add: sorted_map)
  moreover have "before_or_at a b"
    if "a \<in> set (sort_key ?tv xs)" and "b \<in> set (sort_key ?tv xs)" and "?tv a \<le> ?tv b" for a b
  proof -
    from that assms have "timestamp a \<noteq> None" and "timestamp b \<noteq> None" by simp_all
    with that(3) show ?thesis by (auto simp: before_or_at_def)
  qed
  ultimately have "sorted_wrt before_or_at (sort_key ?tv xs)"
    by (rule sorted_wrt_mono_rel [rotated])
  then show ?thesis by (simp add: ascending_def js_sort_valid [OF assms])
qed

lemma js_sort_stable:
  assumes "\<forall>y \<in> set xs. timestamp y \<noteq> None"
  shows "filter (\<lambda>m. timestamp m = t) (js_sort by_timestamp xs) = filter (\<lambda>m. timestamp m = t) xs"
proof (cases t)
  case None
  have "filter (\<lambda>m. timestamp m = None) ys = []" if "set ys = set xs" for ys
    using that assms by (simp add: filter_empty_conv)
  then show ?thesis unfolding None by (simp add: set_js_sort)
next
  case (Some k)
  let ?tv = "\<lambda>m. the (timestamp m)"
  have eq: "filter (\<lambda>m. timestamp m = Some k) ys = filter (\<lambda>m. ?tv m = k) ys"
    if "set ys = set xs" for ys
    using that assms by (intro filter_cong) auto
  have "filter (\<lambda>m. timestamp m = Some k) (js_sort by_timestamp xs)
        = filter (\<lambda>m. ?tv m = k) (sort_key ?tv xs)"
    by (simp add: eq set_js_sort js_sort_valid [OF assms, symmetric])
  also have "\<dots> = filter (\<lambda>m. ?tv m = k) xs" by (rule sort_key_stable)
  also have "\<dots> = filter (\<lambda>m. timestamp m = Some k) xs" by (simp add: eq)
  finally show ?thesis unfolding Some .
qed

lemma msg_id_with_Date: "msg_id (with_Date m) = msg_id m"
  by (simp add: with_Date_def)

lemma timestamp_with_Date: "timestamp (with_Date m) = new_Date (timestamp m)"
  by (simp add: with_Date_def)


section \<open>Replacement in place\<close>

text \<open>
  Claim C1. When the id of an incoming \<open>new-message\<close> event is the id of a message of the
  current list, the handler replaces that message where it stands: there is a position \<open>i\<close>,
  the first one that holds this id, such that the new list is the old one with the incoming
  message written at \<open>i\<close>. The length is the same, position \<open>i\<close> holds the incoming message,
  and every other position holds the message it held before.
\<close>

theorem new_message_replaces_in_place:
  assumes "msg_id message \<in> msg_id ` set prev"
  shows "\<exists>i < length prev.
           msg_id (prev ! i) = msg_id message
         \<and> (\<forall>j < i. msg_id (prev ! j) \<noteq> msg_id message)
         \<and> on_new_message prev message = prev[i := with_Date message]
         \<and> length (on_new_message prev message) = length prev
         \<and> on_new_message prev message ! i = with_Date message
         \<and> (\<forall>j < length prev. j \<noteq> i \<longrightarrow> on_new_message prev message ! j = prev ! j)"
proof -
  let ?P = "\<lambda>m. msg_id m = msg_id message"
  let ?i = "nat (findIndex ?P prev)"
  from assms have "\<not> (\<forall>x \<in> set prev. \<not> ?P x)" by auto
  then have pos: "0 \<le> findIndex ?P prev"
    using findIndex_none [of ?P prev] by auto
  from findIndex_found [OF pos] have
    i: "?i < length prev" and hit: "?P (prev ! ?i)" and first: "\<forall>j < ?i. \<not> ?P (prev ! j)"
    by simp_all
  have res: "on_new_message prev message = prev[?i := with_Date message]"
    using pos by (simp add: on_new_message_def Let_def)
  show ?thesis
  proof (intro exI [of _ ?i] conjI)
    show "?i < length prev" by (rule i)
    show "msg_id (prev ! ?i) = msg_id message" by (rule hit)
    show "\<forall>j < ?i. msg_id (prev ! j) \<noteq> msg_id message" using first by simp
    show "on_new_message prev message = prev[?i := with_Date message]" by (rule res)
    show "length (on_new_message prev message) = length prev" by (simp add: res)
    show "on_new_message prev message ! ?i = with_Date message" using i by (simp add: res)
    show "\<forall>j < length prev. j \<noteq> ?i \<longrightarrow> on_new_message prev message ! j = prev ! j"
      by (simp add: res)
  qed
qed

theorem new_message_replaces_in_place_witness:
  "msg_id (mk_message ''m1'' 100 ''final'')
     \<in> msg_id ` set [mk_message ''m1'' 100 ''thinking'', mk_message ''m2'' 200 ''hi'']
   \<and> on_new_message [mk_message ''m1'' 100 ''thinking'', mk_message ''m2'' 200 ''hi'']
        (mk_message ''m1'' 100 ''final'')
     = [mk_message ''m1'' 100 ''final'', mk_message ''m2'' 200 ''hi'']"
proof -
  let ?prev = "[mk_message ''m1'' 100 ''thinking'', mk_message ''m2'' 200 ''hi'']"
  let ?m = "mk_message ''m1'' 100 ''final''"
  have h: "msg_id ?m \<in> msg_id ` set ?prev"
    by (simp add: mk_message_def)
  from new_message_replaces_in_place [OF h] obtain i where
    i: "i < length ?prev" and first: "\<forall>j < i. msg_id (?prev ! j) \<noteq> msg_id ?m"
    and res: "on_new_message ?prev ?m = ?prev[i := with_Date ?m]"
    by blast
  have "i = 0"
  proof (rule ccontr)
    assume "i \<noteq> 0"
    then have "0 < i" by simp
    with first have "msg_id (?prev ! 0) \<noteq> msg_id ?m" by blast
    then show False by (simp add: mk_message_def)
  qed
  with res have "on_new_message ?prev ?m = [with_Date ?m, mk_message ''m2'' 200 ''hi'']"
    by simp
  moreover have "with_Date ?m = ?m"
    by (simp add: with_Date_def new_Date_def mk_message_def)
  ultimately show ?thesis using h by simp
qed


section \<open>Merging live messages\<close>

lemma new_message_fresh:
  assumes "msg_id e \<notin> msg_id ` set prev"
  shows "on_new_message prev e = js_sort by_timestamp (prev @ [with_Date e])"
proof -
  from assms have "\<forall>x \<in> set prev. \<not> msg_id x = msg_id e" by (metis imageI)
  then have "findIndex (\<lambda>m. msg_id m = msg_id e) prev < 0"
    by (simp add: findIndex_none)
  then show ?thesis by (simp add: on_new_message_def Let_def)
qed

text \<open>
  Claim C2, as stated, fails: three \<open>new-message\<close> events with distinct ids arrive with the
  timestamps 100, a number beyond the range of a date, and 50. The second one gets an
  invalid date, every comparison with it gives NaN, and the list stays in the order of
  arrival, the message of time 100 before the message of time 50.
\<close>

theorem new_messages_invalid_date_counterexample:
  "distinct (map msg_id
      [mk_message ''a'' 100 ''x'', mk_message ''X'' 8640000000000001 ''y'', mk_message ''b'' 50 ''z''])
   \<and> map msg_id (foldl on_new_message []
        [mk_message ''a'' 100 ''x'', mk_message ''X'' 8640000000000001 ''y'', mk_message ''b'' 50 ''z''])
      = [''a'', ''X'', ''b'']
   \<and> map timestamp (foldl on_new_message []
        [mk_message ''a'' 100 ''x'', mk_message ''X'' 8640000000000001 ''y'', mk_message ''b'' 50 ''z''])
      = [Some 100, None, Some 50]
   \<and> \<not> ascending (foldl on_new_message []
        [mk_message ''a'' 100 ''x'', mk_message ''X'' 8640000000000001 ''y'', mk_message ''b'' 50 ''z''])"
  by (simp add: on_new_message_def js_sort_def by_timestamp_def sort_order_def with_Date_def
      new_Date_def mk_message_def ascending_def before_or_at_def Let_def)

text \<open>
  Claim C2, amended. A sequence of \<open>new-message\<close> events with pairwise distinct ids, each
  with a timestamp that gives a valid date, is applied, in the order of arrival, to the
  empty list. The resulting list holds exactly the arrived messages, it is ascending by
  timestamp, and for every time value \<open>t\<close> the messages of the result that carry \<open>t\<close> are, in
  this order, the arrived messages that carry \<open>t\<close>: messages with equal timestamps keep
  their order of arrival.
\<close>

theorem new_messages_sorted_stable:
  assumes "distinct (map msg_id evs)" and "\<forall>e \<in> set evs. valid_date e"
  shows "mset (foldl on_new_message [] evs) = mset (map with_Date evs)
       \<and> ascending (foldl on_new_message [] evs)
       \<and> (\<forall>t. filter (\<lambda>m. timestamp m = t) (foldl on_new_message [] evs)
               = filter (\<lambda>m. timestamp m = t) (map with_Date evs))"
  using assms
proof (induction evs rule: rev_induct)
  case Nil
  show ?case by (simp add: ascending_def)
next
  case (snoc e evs)
  let ?R = "foldl on_new_message [] evs"
  from snoc.prems have d: "distinct (map msg_id evs)" and fresh: "msg_id e \<notin> msg_id ` set evs"
    and v: "\<forall>e \<in> set evs. valid_date e" and ve: "valid_date e"
    by simp_all
  from snoc.IH [OF d v] have
    m: "mset ?R = mset (map with_Date evs)" and
    st: "\<forall>t. filter (\<lambda>m. timestamp m = t) ?R = filter (\<lambda>m. timestamp m = t) (map with_Date evs)"
    by simp_all
  from m have sR: "set ?R = set (map with_Date evs)" by (rule mset_eq_setD)
  then have "msg_id ` set ?R = msg_id ` set evs"
    by (simp add: image_image msg_id_with_Date)
  with fresh have "msg_id e \<notin> msg_id ` set ?R" by simp
  then have step: "foldl on_new_message [] (evs @ [e]) = js_sort by_timestamp (?R @ [with_Date e])"
    by (simp add: new_message_fresh)
  have valid: "\<forall>y \<in> set (?R @ [with_Date e]). timestamp y \<noteq> None"
    using v ve by (auto simp: sR timestamp_with_Date valid_date_def)
  have "mset (js_sort by_timestamp (?R @ [with_Date e])) = mset (map with_Date (evs @ [e]))"
    by (simp add: mset_js_sort m)
  moreover have "ascending (js_sort by_timestamp (?R @ [with_Date e]))"
    using valid by (rule ascending_js_sort)
  moreover have "\<forall>t. filter (\<lambda>m. timestamp m = t) (js_sort by_timestamp (?R @ [with_Date e]))
                 = filter (\<lambda>m. timestamp m = t) (map with_Date (evs @ [e]))"
    using st by (simp only: js_sort_stable [OF valid]) simp
  ultimately show ?case
    unfolding step by (intro conjI)
qed

theorem new_messages_sorted_stable_witness:
  "distinct (map msg_id [mk_message ''a'' 200 ''x'', mk_message ''b'' 100 ''y'', mk_message ''c'' 200 ''z''])
   \<and> valid_date (mk_message ''a'' 200 ''x'') \<and> valid_date (mk_message ''b'' 100 ''y'')
   \<and> valid_date (mk_message ''c'' 200 ''z'')
   \<and> foldl on_new_message []
        [mk_message ''a'' 200 ''x'', mk_message ''b'' 100 ''y'', mk_message ''c'' 200 ''z'']
      = [mk_message ''b'' 100 ''y'', mk_message ''a'' 200 ''x'', mk_message ''c'' 200 ''z'']
   \<and> ascending (foldl on_new_message []
        [mk_message ''a'' 200 ''x'', mk_message ''b'' 100 ''y'', mk_message ''c'' 200 ''z''])
   \<and> filter (\<lambda>m. timestamp m = Some 200) (foldl on_new_message []
        [mk_message ''a'' 200 ''x'', mk_message ''b'' 100 ''y'', mk_message ''c'' 200 ''z''])
      = [mk_message ''a'' 200 ''x'', mk_message ''c'' 200 ''z'']"
proof -
  let ?evs = "[mk_message ''a'' 200 ''x'', mk_message ''b'' 100 ''y'', mk_message ''c'' 200 ''z'']"
  have h: "distinct (map msg_id ?evs)"
    by (simp add: mk_message_def)
  have v: "valid_date (mk_message ''a'' 200 ''x'') \<and> valid_date (mk_message ''b'' 100 ''y'')
           \<and> valid_date (mk_message ''c'' 200 ''z'')"
    by (simp add: valid_date_def new_Date_def mk_message_def)
  then have v': "\<forall>e \<in> set ?evs. valid_date e" by simp
  have run: "foldl on_new_message [] ?evs
      = [mk_message ''b'' 100 ''y'', mk_message ''a'' 200 ''x'', mk_message ''c'' 200 ''z'']"
    by (simp add: on_new_message_def js_sort_def by_timestamp_def sort_order_def with_Date_def
        new_Date_def mk_message_def Let_def)
  from new_messages_sorted_stable [OF h v'] have
    s: "ascending (foldl on_new_message [] ?evs)" and
    f: "filter (\<lambda>m. timestamp m = Some 200) (foldl on_new_message [] ?evs)
        = filter (\<lambda>m. timestamp m = Some 200) (map with_Date ?evs)"
    by simp_all
  have "filter (\<lambda>m. timestamp m = Some 200) (map with_Date ?evs)
        = [mk_message ''a'' 200 ''x'', mk_message ''c'' 200 ''z'']"
    by (simp add: with_Date_def new_Date_def mk_message_def)
  with f have f': "filter (\<lambda>m. timestamp m = Some 200) (foldl on_new_message [] ?evs)
        = [mk_message ''a'' 200 ''x'', mk_message ''c'' 200 ''z'']" by simp
  show ?thesis using h v run s f' by blast
qed


section \<open>Snapshots\<close>

text \<open>
  Claim C3, as stated, fails in its sorting: a snapshot whose first message has a timestamp
  beyond the range of a date is kept in the order of the snapshot, the invalid date first,
  and a snapshot with the timestamps 100, such a number, and 50 is kept with the message of
  time 100 before the message of time 50.
\<close>

theorem room_history_invalid_date_counterexample:
  "map timestamp (messages (deliver (RoomHistory (mk_snapshot
        [mk_message ''a'' 8640000000000001 ''x'', mk_message ''b'' 50 ''y''] [])) initial_world))
     = [None, Some 50]
   \<and> \<not> ascending (messages (deliver (RoomHistory (mk_snapshot
        [mk_message ''a'' 8640000000000001 ''x'', mk_message ''b'' 50 ''y''] [])) initial_world))
   \<and> map timestamp (messages (deliver (RoomHistory (mk_snapshot
        [mk_message ''a'' 100 ''x'', mk_message ''X'' 8640000000000001 ''y'',
         mk_message ''b'' 50 ''z''] [])) initial_world))
     = [Some 100, None, Some 50]
   \<and> \<not> ascending (messages (deliver (RoomHistory (mk_snapshot
        [mk_message ''a'' 100 ''x'', mk_message ''X'' 8640000000000001 ''y'',
         mk_message ''b'' 50 ''z''] [])) initial_world))"
  by (simp add: history_messages_def mk_snapshot_def js_sort_def by_timestamp_def sort_order_def
      with_Date_def new_Date_def mk_message_def ascending_def before_or_at_def)

text \<open>
  Claim C3, amended. A \<open>room-history\<close> event replaces the message list by the messages of
  the snapshot, each with its timestamp made a date, in the order in which the sort by
  timestamp leaves them: the new list is the same whatever the list was before, it holds
  exactly the messages of the snapshot, and processing the same snapshot a second time
  gives the same message list. When every timestamp of the snapshot gives a valid date, the
  new list is ascending by timestamp and messages with equal timestamps keep the order of
  the snapshot.
\<close>

theorem room_history_replaces_idempotent:
  "messages (deliver (RoomHistory data) w) = js_sort by_timestamp (map with_Date (rd_messages data))
   \<and> messages (deliver (RoomHistory data) w) = messages (deliver (RoomHistory data) w')
   \<and> mset (messages (deliver (RoomHistory data) w)) = mset (map with_Date (rd_messages data))
   \<and> messages (deliver (RoomHistory data) (deliver (RoomHistory data) w))
       = messages (deliver (RoomHistory data) w)
   \<and> ((\<forall>m \<in> set (rd_messages data). valid_date m) \<longrightarrow>
         ascending (messages (deliver (RoomHistory data) w))
       \<and> (\<forall>t. filter (\<lambda>m. timestamp m = t) (messages (deliver (RoomHistory data) w))
               = filter (\<lambda>m. timestamp m = t) (map with_Date (rd_messages data))))"
proof -
  have m: "messages (deliver (RoomHistory data) v)
           = js_sort by_timestamp (map with_Date (rd_messages data))" for v
    by (simp add: history_messages_def)
  have sorted_part: "ascending (js_sort by_timestamp (map with_Date (rd_messages data)))
       \<and> (\<forall>t. filter (\<lambda>m. timestamp m = t) (js_sort by_timestamp (map with_Date (rd_messages data)))
               = filter (\<lambda>m. timestamp m = t) (map with_Date (rd_messages data)))"
    if v: "\<forall>m \<in> set (rd_messages data). valid_date m"
  proof -
    from v have valid: "\<forall>y \<in> set (map with_Date (rd_messages data)). timestamp y \<noteq> None"
      by (auto simp: timestamp_with_Date valid_date_def)
    show ?thesis
      using ascending_js_sort [OF valid] js_sort_stable [OF valid] by simp
  qed
  show ?thesis
    unfolding m using sorted_part by (simp add: mset_js_sort)
qed

theorem room_history_replaces_idempotent_witness:
  "valid_date (mk_message ''a'' 200 ''x'') \<and> valid_date (mk_message ''b'' 100 ''y'')
   \<and> messages (deliver (RoomHistory (mk_snapshot [mk_message ''a'' 200 ''x'', mk_message ''b'' 100 ''y''] []))
      (deliver (RoomHistory (mk_snapshot [mk_message ''a'' 200 ''x'', mk_message ''b'' 100 ''y''] []))
         (initial_world\<lparr>messages := [mk_message ''old'' 5 ''z'']\<rparr>)))
    = [mk_message ''b'' 100 ''y'', mk_message ''a'' 200 ''x'']
   \<and> ascending (messages (deliver (RoomHistory
        (mk_snapshot [mk_message ''a'' 200 ''x'', mk_message ''b'' 100 ''y''] []))
         (initial_world\<lparr>messages := [mk_message ''old'' 5 ''z'']\<rparr>)))"
proof -
  let ?snap = "mk_snapshot [mk_message ''a'' 200 ''x'', mk_message ''b'' 100 ''y''] []"
  let ?w = "initial_world\<lparr>messages := [mk_message ''old'' 5 ''z'']\<rparr>"
  have v: "valid_date (mk_message ''a'' 200 ''x'') \<and> valid_date (mk_message ''b'' 100 ''y'')"
    by (simp add: valid_date_def new_Date_def mk_message_def)
  then have v': "\<forall>m \<in> set (rd_messages ?snap). valid_date m"
    by (simp add: mk_snapshot_def)
  from room_history_replaces_idempotent [of ?snap ?w] v' have
    a: "messages (deliver (RoomHistory ?snap) (deliver (RoomHistory ?snap) ?w))
          = messages (deliver (RoomHistory ?snap) ?w)" and
    b: "messages (deliver (RoomHistory ?snap) ?w)
          = js_sort by_timestamp (map with_Date (rd_messages ?snap))" and
    c: "ascending (messages (deliver (RoomHistory ?snap) ?w))"
    by blast+
  have "js_sort by_timestamp (map with_Date (rd_messages ?snap))
        = [mk_message ''b'' 100 ''y'', mk_message ''a'' 200 ''x'']"
    by (simp add: mk_snapshot_def js_sort_def by_timestamp_def sort_order_def with_Date_def
        new_Date_def mk_message_def)
  with a b have "messages (deliver (RoomHistory ?snap) (deliver (RoomHistory ?snap) ?w))
        = [mk_message ''b'' 100 ''y'', mk_message ''a'' 200 ''x'']"
    by simp
  with v c show ?thesis by blast
qed


section \<open>Presence\<close>

lemma push_unique_distinct:
  "distinct (map user_id acc) \<Longrightarrow> distinct (map user_id (push_unique acc u))"
  by (auto simp: push_unique_def list_ex_iff)

lemma foldl_push_unique_distinct:
  "distinct (map user_id acc) \<Longrightarrow> distinct (map user_id (foldl push_unique acc us))"
  by (induction us arbitrary: acc) (simp_all add: push_unique_distinct)

lemma push_unique_ids: "user_id ` set (push_unique acc u) = insert (user_id u) (user_id ` set acc)"
  by (auto simp: push_unique_def list_ex_iff) (metis imageI)

lemma foldl_push_unique_ids:
  "user_id ` set (foldl push_unique acc us) = user_id ` set acc \<union> user_id ` set us"
  by (induction us arbitrary: acc) (auto simp: push_unique_ids)

lemma uniqueUsers_distinct: "distinct (map user_id (uniqueUsers us))"
  by (simp add: uniqueUsers_def foldl_push_unique_distinct)

lemma uniqueUsers_ids: "user_id ` set (uniqueUsers us) = user_id ` set us"
  by (simp add: uniqueUsers_def foldl_push_unique_ids)

text \<open>
  Claim C9. After a \<open>room-history\<close>, \<open>user-joined\<close> or \<open>user-left\<close> event the list of room
  users holds no user id twice, whatever user list the event carried, and it holds every
  user id that the event carried. A \<open>user-left\<close> event removes the id of the leaving user
  from the typing map and leaves the other entries as they were.
\<close>

theorem presence_unique_by_id:
  "distinct (map user_id (roomUsers (deliver (RoomHistory data) w)))
   \<and> distinct (map user_id (roomUsers (deliver (UserJoined u us) w)))
   \<and> distinct (map user_id (roomUsers (deliver (UserLeft leaving sid us) w)))
   \<and> user_id ` set (roomUsers (deliver (RoomHistory data) w)) = user_id ` set (rd_users data)
   \<and> user_id ` set (roomUsers (deliver (UserJoined u us) w)) = user_id ` set us
   \<and> user_id ` set (roomUsers (deliver (UserLeft leaving sid us) w)) = user_id ` set us
   \<and> typingUsers (deliver (UserLeft leaving sid us) w) = (typingUsers w)(leaving := None)
   \<and> typingUsers (deliver (UserLeft leaving sid us) w) leaving = None"
  by (simp add: uniqueUsers_distinct uniqueUsers_ids)

theorem presence_unique_by_id_witness:
  "roomUsers (deliver (UserJoined (mk_user ''u1'' ''Ann'')
       [mk_user ''u1'' ''Ann'', mk_user ''u2'' ''Bob'', mk_user ''u1'' ''Ann'']) initial_world)
     = [mk_user ''u1'' ''Ann'', mk_user ''u2'' ''Bob'']
   \<and> distinct (map user_id (roomUsers (deliver (UserJoined (mk_user ''u1'' ''Ann'')
       [mk_user ''u1'' ''Ann'', mk_user ''u2'' ''Bob'', mk_user ''u1'' ''Ann'']) initial_world)))
   \<and> typingUsers (deliver (UserLeft ''u2'' ''s2'' [mk_user ''u1'' ''Ann''])
        (initial_world\<lparr>typingUsers := [''u2'' \<mapsto> \<lparr>ti_name = ''Bob'', ti_photoURL = None\<rparr>]\<rparr>)) ''u2''
     = None"
proof -
  have run: "roomUsers (deliver (UserJoined (mk_user ''u1'' ''Ann'')
       [mk_user ''u1'' ''Ann'', mk_user ''u2'' ''Bob'', mk_user ''u1'' ''Ann'']) initial_world)
     = [mk_user ''u1'' ''Ann'', mk_user ''u2'' ''Bob'']"
    by (simp add: uniqueUsers_def push_unique_def mk_user_def)
  show ?thesis
    using run
      presence_unique_by_id [of "mk_snapshot [] []" initial_world "mk_user ''u1'' ''Ann''"
        "[mk_user ''u1'' ''Ann'', mk_user ''u2'' ''Bob'', mk_user ''u1'' ''Ann'']" "''u2''" "''s2''"]
      presence_unique_by_id [of "mk_snapshot [] []"
        "initial_world\<lparr>typingUsers := [''u2'' \<mapsto> \<lparr>ti_name = ''Bob'', ti_photoURL = None\<rparr>]\<rparr>"
        "mk_user ''u2'' ''Bob''" "[mk_user ''u1'' ''Ann'']" "''u2''" "''s2''"]
    by simp
qed


section \<open>Uniqueness of message ids\<close>

lemma js_sort_distinct_ids:
  "distinct (map msg_id (js_sort by_timestamp xs)) = distinct (map msg_id xs)"
proof -
  have "mset (map msg_id (js_sort by_timestamp xs)) = mset (map msg_id xs)"
    by (simp only: mset_map mset_js_sort)
  then show ?thesis by (rule mset_eq_imp_distinct_iff)
qed

lemma new_message_keeps_ids:
  assumes "distinct (map msg_id prev)"
  shows "distinct (map msg_id (on_new_message prev m))"
proof (cases "msg_id m \<in> msg_id ` set prev")
  case True
  let ?P = "\<lambda>x. msg_id x = msg_id m"
  from True have "\<not> (\<forall>x \<in> set prev. \<not> ?P x)" by auto
  then have pos: "0 \<le> findIndex ?P prev"
    using findIndex_none [of ?P prev] by auto
  from findIndex_found [OF pos] have
    i: "nat (findIndex ?P prev) < length prev" and hit: "?P (prev ! nat (findIndex ?P prev))"
    by simp_all
  have "map msg_id (prev[nat (findIndex ?P prev) := with_Date m]) = map msg_id prev"
    using i hit by (simp add: map_update msg_id_with_Date list_update_same_conv)
  with assms pos show ?thesis
    by (simp add: on_new_message_def Let_def)
next
  case False
  then have "on_new_message prev m = js_sort by_timestamp (prev @ [with_Date m])"
    by (rule new_message_fresh)
  moreover have "distinct (map msg_id (prev @ [with_Date m]))"
    using assms False by (simp add: msg_id_with_Date)
  ultimately show ?thesis
    by (simp only: js_sort_distinct_ids)
qed

lemma history_keeps_ids:
  assumes "distinct (map msg_id (rd_messages data))"
  shows "distinct (map msg_id (history_messages data))"
proof -
  have eq: "map msg_id (map with_Date (rd_messages data)) = map msg_id (rd_messages data)"
    by (simp add: comp_def msg_id_with_Date)
  have "distinct (map msg_id (map with_Date (rd_messages data)))"
    unfolding eq by (rule assms)
  then show ?thesis
    by (simp only: history_messages_def js_sort_distinct_ids)
qed

lemma deliver_keeps_ids:
  assumes "distinct (map msg_id (messages w))" and "unique_ok ev (messages w)"
  shows "distinct (map msg_id (messages (deliver ev w)))"
proof (cases ev)
  case (RoomHistory data)
  with assms show ?thesis by (simp add: history_keeps_ids)
next
  case (NewMessage m)
  with assms show ?thesis by (simp add: new_message_keeps_ids)
next
  case (AiTyping m)
  with assms show ?thesis
    by (simp add: on_ai_typing_def msg_id_with_Date)
next
  case (UserJoined u us)
  with assms show ?thesis by simp
next
  case (UserLeft leaving sid us)
  with assms show ?thesis by simp
qed

text \<open>
  Claim C7, as stated, fails: the \<open>ai-typing\<close> handler appends the placeholder without
  looking at its id, so two placeholders with one id give two entries with that id.
\<close>

theorem duplicate_ai_typing_counterexample:
  "messages (deliver_all [AiTyping (mk_message ''ai-1'' 100 []), AiTyping (mk_message ''ai-1'' 100 [])]
      initial_world)
     = [mk_message ''ai-1'' 100 [], mk_message ''ai-1'' 100 []]
   \<and> \<not> distinct (map msg_id (messages (deliver_all
        [AiTyping (mk_message ''ai-1'' 100 []), AiTyping (mk_message ''ai-1'' 100 [])]
        initial_world)))"
  by (simp add: deliver_all_def on_ai_typing_def initial_world_def with_Date_def new_Date_def
      mk_message_def)

text \<open>
  Claim C7, amended. Let the message list hold no id twice, and let a sequence of inbound
  events be such that every snapshot in it repeats no id and every \<open>ai-typing\<close> placeholder
  carries an id that the list does not hold when the placeholder arrives. Then the
  resulting message list holds no id twice. Nothing is required of the \<open>new-message\<close>
  events: they never add a second entry for an id.
\<close>

theorem message_ids_stay_unique:
  assumes "distinct (map msg_id (messages w))" and "served_uniquely evs w"
  shows "distinct (map msg_id (messages (deliver_all evs w)))"
  using assms
proof (induction evs arbitrary: w)
  case Nil
  then show ?case by (simp add: deliver_all_def)
next
  case (Cons ev evs)
  from Cons.prems have ok: "unique_ok ev (messages w)" and rest: "served_uniquely evs (deliver ev w)"
    by simp_all
  from Cons.prems(1) ok have "distinct (map msg_id (messages (deliver ev w)))"
    by (rule deliver_keeps_ids)
  from Cons.IH [OF this rest] show ?case
    by (simp add: deliver_all_def)
qed

theorem message_ids_stay_unique_witness:
  "distinct (map msg_id (messages initial_world))
   \<and> served_uniquely
        [RoomHistory (mk_snapshot [] []), AiTyping (mk_message ''m1'' 100 []),
         NewMessage (mk_message ''m1'' 100 ''final'')] initial_world
   \<and> distinct (map msg_id (messages (deliver_all
        [RoomHistory (mk_snapshot [] []), AiTyping (mk_message ''m1'' 100 []),
         NewMessage (mk_message ''m1'' 100 ''final'')] initial_world)))"
proof -
  let ?evs = "[RoomHistory (mk_snapshot [] []), AiTyping (mk_message ''m1'' 100 []),
         NewMessage (mk_message ''m1'' 100 ''final'')]"
  have a: "distinct (map msg_id (messages initial_world))"
    by (simp add: initial_world_def)
  have b: "served_uniquely ?evs initial_world"
    by (simp add: initial_world_def mk_snapshot_def history_messages_def js_sort_def
        on_ai_typing_def)
  from message_ids_stay_unique [OF a b] a b show ?thesis by simp
qed

section \<open>HTTP side channel\<close>

lemma deleteUserChat_resume_true:
  "fst (deleteUserChat_resume u r tid fetched w) = Inr True"
  by (simp add: deleteUserChat_resume_def Let_def split: sum.splits)

lemma deleteUserChat_resume_room:
  "currentRoomId (snd (deleteUserChat_resume u r tid fetched w)) = currentRoomId w"
  by (simp add: deleteUserChat_resume_def Let_def clearTimeout_def emit_def split: sum.splits)

lemma deleteUserChat_start_outbound:
  "outbound (snd (deleteUserChat_start u r w)) = outbound w @ [(now w, LeaveRoom r)]"
  by (simp add: deleteUserChat_start_def setTimeout_def emit_def initSocket_def Let_def)

lemma deleteUserChat_start_room:
  "currentRoomId (snd (deleteUserChat_start u r w))
   = (if currentRoomId w = Some r then None else currentRoomId w)"
  by (simp add: deleteUserChat_start_def setTimeout_def emit_def initSocket_def Let_def)

lemma deleteUserChat_start_timers:
  "timers (snd (deleteUserChat_start u r w))
   = timers w @ [\<lparr>tm_id = next_timer_id w, tm_due = now w + 10000, tm_action = AbortFetch\<rparr>]"
  by (simp add: deleteUserChat_start_def setTimeout_def emit_def initSocket_def Let_def)

text \<open>
  Claim C6. For every user id, room id and state, and for every outcome of the DELETE
  request (a response with any status and any body, or a rejection such as a network error
  or the abort after 10 seconds), \<open>deleteUserChat\<close> resolves to \<open>true\<close>. At the moment the
  request is issued the client has emitted \<open>leave-room\<close> for the room as its latest event,
  the current-room pointer is cleared if it was this room and unchanged otherwise, and the
  timer that aborts the request is set for 10000 ms later; the pointer is the same when the
  function returns.
\<close>

theorem deleteUserChat_returns_true:
  "fst (deleteUserChat u r fetched w) = Inr True
   \<and> fst (deleteUserChat_resume u r tid fetched w') = Inr True
   \<and> outbound (snd (deleteUserChat_start u r w)) = outbound w @ [(now w, LeaveRoom r)]
   \<and> currentRoomId (snd (deleteUserChat_start u r w))
       = (if currentRoomId w = Some r then None else currentRoomId w)
   \<and> timers (snd (deleteUserChat_start u r w))
       = timers w @ [\<lparr>tm_id = next_timer_id w, tm_due = now w + 10000, tm_action = AbortFetch\<rparr>]
   \<and> currentRoomId (snd (deleteUserChat u r fetched w))
       = (if currentRoomId w = Some r then None else currentRoomId w)"
proof -
  obtain t w1 where st: "deleteUserChat_start u r w = (t, w1)"
    by (cases "deleteUserChat_start u r w")
  then have d: "deleteUserChat u r fetched w = deleteUserChat_resume u r t fetched w1"
    by (simp add: deleteUserChat_def)
  have w1: "w1 = snd (deleteUserChat_start u r w)" by (simp add: st)
  have "fst (deleteUserChat u r fetched w) = Inr True"
    unfolding d by (rule deleteUserChat_resume_true)
  moreover have "currentRoomId (snd (deleteUserChat u r fetched w))
       = (if currentRoomId w = Some r then None else currentRoomId w)"
    unfolding d deleteUserChat_resume_room w1 by (rule deleteUserChat_start_room)
  ultimately show ?thesis
    by (simp only: deleteUserChat_resume_true deleteUserChat_start_outbound
        deleteUserChat_start_room deleteUserChat_start_timers simp_thms)
qed

theorem deleteUserChat_returns_true_witness:
  "fst (deleteUserChat ''u1'' ''r1'' (Inl AbortError) (initial_world\<lparr>currentRoomId := Some ''r1''\<rparr>))
     = Inr True
   \<and> fst (deleteUserChat ''u1'' ''r1'' (Inr (mk_response 500 (Inl SyntaxError)))
        (initial_world\<lparr>currentRoomId := Some ''r1''\<rparr>)) = Inr True
   \<and> outbound (snd (deleteUserChat_start ''u1'' ''r1'' (initial_world\<lparr>currentRoomId := Some ''r1''\<rparr>)))
     = [(0, LeaveRoom ''r1'')]
   \<and> currentRoomId (snd (deleteUserChat_start ''u1'' ''r1''
        (initial_world\<lparr>currentRoomId := Some ''r1''\<rparr>))) = None"
  using
    deleteUserChat_returns_true [of "''u1''" "''r1''" "Inl AbortError"
      "initial_world\<lparr>currentRoomId := Some ''r1''\<rparr>"]
    deleteUserChat_returns_true [of "''u1''" "''r1''" "Inr (mk_response 500 (Inl SyntaxError))"
      "initial_world\<lparr>currentRoomId := Some ''r1''\<rparr>"]
  by (simp add: initial_world_def)

text \<open>
  Claim C10. \<open>checkRoomExists\<close> never rejects: for every outcome of the GET request it
  resolves to a value. When the request fails, and when the body of the response cannot be
  parsed as JSON, the value is \<open>false\<close>, the same value as for a response that says that
  the room does not exist.
\<close>

theorem checkRoomExists_never_throws:
  "(\<exists>v. checkRoomExists fetched = Inr v)
   \<and> checkRoomExists (Inl e) = Inr (Val (JBool False))
   \<and> checkRoomExists (Inr (response\<lparr>resp_json := Inl e\<rparr>)) = Inr (Val (JBool False))
   \<and> checkRoomExists (Inr (response\<lparr>resp_json := Inr (JObj [(''exists'', JBool False)])\<rparr>))
       = checkRoomExists (Inl e)"
proof -
  have "\<exists>v. checkRoomExists fetched = Inr v"
    by (cases fetched) (auto simp: checkRoomExists_def try_catch_def then_do_def split: sum.splits)
  moreover have "checkRoomExists (Inl e) = Inr (Val (JBool False))"
    by (simp add: checkRoomExists_def try_catch_def then_do_def)
  moreover have "checkRoomExists (Inr (response\<lparr>resp_json := Inl e\<rparr>)) = Inr (Val (JBool False))"
    by (simp add: checkRoomExists_def try_catch_def then_do_def)
  moreover have
    "checkRoomExists (Inr (response\<lparr>resp_json := Inr (JObj [(''exists'', JBool False)])\<rparr>))
     = Inr (Val (JBool False))"
    by (simp add: checkRoomExists_def try_catch_def then_do_def)
  ultimately show ?thesis by simp
qed

theorem checkRoomExists_never_throws_witness:
  "checkRoomExists (Inl NetworkError) = Inr (Val (JBool False))
   \<and> checkRoomExists (Inr (mk_response 200 (Inl SyntaxError))) = Inr (Val (JBool False))
   \<and> checkRoomExists (Inr (mk_response 200 (Inr JNull))) = Inr (Val (JBool False))
   \<and> checkRoomExists (Inr (mk_response 200 (Inr (JObj [(''exists'', JBool True)]))))
       = Inr (Val (JBool True))"
proof -
  have a: "checkRoomExists (Inr (mk_response 200 (Inr JNull))) = Inr (Val (JBool False))"
    by (simp add: checkRoomExists_def try_catch_def then_do_def mk_response_def)
  have b: "checkRoomExists (Inr (mk_response 200 (Inr (JObj [(''exists'', JBool True)]))))
       = Inr (Val (JBool True))"
    by (simp add: checkRoomExists_def try_catch_def then_do_def mk_response_def)
  have c: "(mk_response 200 (Inr JNull))\<lparr>resp_json := Inl SyntaxError\<rparr>
           = mk_response 200 (Inl SyntaxError)"
    by (simp add: mk_response_def)
  from checkRoomExists_never_throws [of "Inl NetworkError" NetworkError "mk_response 200 (Inr JNull)"]
  have d: "checkRoomExists (Inl NetworkError) = Inr (Val (JBool False))"
    by (rule conjunct1 [OF conjunct2])
  from checkRoomExists_never_throws [of "Inl NetworkError" SyntaxError "mk_response 200 (Inr JNull)"]
  have "checkRoomExists (Inr ((mk_response 200 (Inr JNull))\<lparr>resp_json := Inl SyntaxError\<rparr>))
        = Inr (Val (JBool False))"
    by (rule conjunct1 [OF conjunct2 [OF conjunct2]])
  then have e: "checkRoomExists (Inr (mk_response 200 (Inl SyntaxError))) = Inr (Val (JBool False))"
    by (simp only: c)
  from d e a b show ?thesis by (intro conjI)
qed

section \<open>Timers\<close>

lemma timers_fire: "timers (fire a w) = timers w"
  by (cases a)
    (simp_all add: actuallyJoinRoom_def sendStoppedTypingIndicator_def emit_def initSocket_def
      Let_def split: option.splits)

lemma next_timer_Nil: "next_timer T [] = None"
  by (simp add: next_timer_def)

lemma next_timer_single: "next_timer T [t] = (if tm_due t \<le> T then Some t else None)"
  by (simp add: next_timer_def)

lemma run_until_no_timers: "timers w = [] \<Longrightarrow> run_until T w = w"
  by (subst run_until.simps) (simp add: next_timer_Nil)

lemma run_until_single_late:
  "timers w = [t] \<Longrightarrow> T < tm_due t \<Longrightarrow> run_until T w = w"
  by (subst run_until.simps) (simp add: next_timer_single)

lemma run_until_single_due:
  assumes "timers w = [t]" and "tm_due t \<le> T"
  shows "run_until T w = fire (tm_action t) (w\<lparr>now := max (now w) (tm_due t), timers := []\<rparr>)"
proof -
  let ?v = "fire (tm_action t) (w\<lparr>now := max (now w) (tm_due t), timers := []\<rparr>)"
  have "timers ?v = []" by (simp add: timers_fire)
  then have "run_until T ?v = ?v" by (rule run_until_no_timers)
  moreover have "run_until T w = run_until T ?v"
    using assms by (subst run_until.simps) (simp add: next_timer_single)
  ultimately show ?thesis by simp
qed


section \<open>Joining a room\<close>

lemma joinRoom_direct:
  assumes "\<not> truthy (currentRoomId w) \<or> currentRoomId w = Some B"
  shows "joinRoom B u w = actuallyJoinRoom B u (w\<lparr>socket := True\<rparr>)"
proof (cases "socket w")
  case True
  then have "w\<lparr>socket := True\<rparr> = w" by (cases w) simp
  moreover from True assms have "joinRoom B u w = actuallyJoinRoom B u w"
    by (auto simp: joinRoom_def Let_def)
  ultimately show ?thesis by simp
next
  case False
  with assms show ?thesis
    by (auto simp: joinRoom_def initSocket_def Let_def)
qed

lemma joinRoom_delayed:
  assumes "currentRoomId w = Some A" and "truthy (Some A)" and "A \<noteq> B"
  shows "joinRoom B u w =
           w\<lparr>socket := True,
             outbound := outbound w @ [(now w, LeaveRoom A)],
             timers := timers w @ [\<lparr>tm_id = next_timer_id w, tm_due = now w + 100,
                                    tm_action = DelayedJoin B u\<rparr>],
             next_timer_id := Suc (next_timer_id w)\<rparr>"
  using assms by (cases "socket w") (simp_all add: joinRoom_def initSocket_def emit_def setTimeout_def Let_def)

lemma actuallyJoinRoom_outbound:
  "socket w \<Longrightarrow> outbound (actuallyJoinRoom B u w) = outbound w @ [(now w, JoinRoom B (safeUser u))]"
  by (simp add: actuallyJoinRoom_def emit_def Let_def split: option.splits)

lemma actuallyJoinRoom_timers: "timers (actuallyJoinRoom B u w) = timers w"
  by (simp add: actuallyJoinRoom_def emit_def Let_def split: option.splits)

lemma actuallyJoinRoom_room: "currentRoomId (actuallyJoinRoom B u w) = Some B"
  by (simp add: actuallyJoinRoom_def emit_def Let_def split: option.splits)

text \<open>
  Claim C4. A room is remembered when \<open>currentRoomId\<close> is truthy, which is the test of
  \<open>joinRoom\<close> itself. When \<open>joinRoom B\<close> is called while a room \<open>A\<close> other than \<open>B\<close> is
  remembered, the call emits \<open>leave-room A\<close> at once and nothing else, and sets a timer of
  100 ms for the join. With no other timer pending, the log of emitted events is still the
  same at every moment before the 100 ms have passed, and from then on it is the old log
  followed by \<open>leave-room A\<close> at the time of the call and \<open>join-room B\<close> 100 ms later. When
  no room is remembered, or \<open>B\<close> is the remembered room, the call emits \<open>join-room B\<close> at
  once, emits no leave and sets no timer.
\<close>

theorem joinRoom_leave_before_join:
  "(currentRoomId w = Some A \<and> truthy (Some A) \<and> A \<noteq> B \<longrightarrow>
       outbound (joinRoom B u w) = outbound w @ [(now w, LeaveRoom A)]
     \<and> timers (joinRoom B u w)
         = timers w @ [\<lparr>tm_id = next_timer_id w, tm_due = now w + 100, tm_action = DelayedJoin B u\<rparr>]
     \<and> (timers w = [] \<longrightarrow>
          (\<forall>d < 100. outbound (elapse d (joinRoom B u w)) = outbound w @ [(now w, LeaveRoom A)])
        \<and> (\<forall>d \<ge> 100. outbound (elapse d (joinRoom B u w))
              = outbound w @ [(now w, LeaveRoom A), (now w + 100, JoinRoom B (safeUser u))])))
   \<and> (\<not> truthy (currentRoomId w) \<or> currentRoomId w = Some B \<longrightarrow>
       outbound (joinRoom B u w) = outbound w @ [(now w, JoinRoom B (safeUser u))]
     \<and> timers (joinRoom B u w) = timers w)"
proof (intro conjI impI)
  assume h: "currentRoomId w = Some A \<and> truthy (Some A) \<and> A \<noteq> B"
  then have j: "joinRoom B u w =
           w\<lparr>socket := True,
             outbound := outbound w @ [(now w, LeaveRoom A)],
             timers := timers w @ [\<lparr>tm_id = next_timer_id w, tm_due = now w + 100,
                                    tm_action = DelayedJoin B u\<rparr>],
             next_timer_id := Suc (next_timer_id w)\<rparr>"
    by (simp add: joinRoom_delayed)
  show "outbound (joinRoom B u w) = outbound w @ [(now w, LeaveRoom A)]"
    by (simp add: j)
  show "timers (joinRoom B u w)
         = timers w @ [\<lparr>tm_id = next_timer_id w, tm_due = now w + 100, tm_action = DelayedJoin B u\<rparr>]"
    by (simp add: j)
  assume e: "timers w = []"
  let ?t = "\<lparr>tm_id = next_timer_id w, tm_due = now w + 100, tm_action = DelayedJoin B u\<rparr>"
  have ts: "timers (joinRoom B u w) = [?t]" by (simp add: j e)
  have nw: "now (joinRoom B u w) = now w" by (simp add: j)
  show "\<forall>d < 100. outbound (elapse d (joinRoom B u w)) = outbound w @ [(now w, LeaveRoom A)]"
  proof (intro allI impI)
    fix d :: nat
    assume "d < 100"
    then have "run_until (now w + d) (joinRoom B u w) = joinRoom B u w"
      using ts by (intro run_until_single_late [of _ ?t]) simp_all
    then show "outbound (elapse d (joinRoom B u w)) = outbound w @ [(now w, LeaveRoom A)]"
      by (simp add: elapse_def nw) (simp add: j)
  qed
  show "\<forall>d \<ge> 100. outbound (elapse d (joinRoom B u w))
          = outbound w @ [(now w, LeaveRoom A), (now w + 100, JoinRoom B (safeUser u))]"
  proof (intro allI impI)
    fix d :: nat
    assume "100 \<le> d"
    then have "run_until (now w + d) (joinRoom B u w)
        = fire (tm_action ?t) ((joinRoom B u w)\<lparr>now := max (now (joinRoom B u w)) (tm_due ?t), timers := []\<rparr>)"
      using ts by (intro run_until_single_due) simp_all
    then show "outbound (elapse d (joinRoom B u w))
          = outbound w @ [(now w, LeaveRoom A), (now w + 100, JoinRoom B (safeUser u))]"
      by (simp add: elapse_def j actuallyJoinRoom_outbound)
  qed
next
  assume h: "\<not> truthy (currentRoomId w) \<or> currentRoomId w = Some B"
  then have j: "joinRoom B u w = actuallyJoinRoom B u (w\<lparr>socket := True\<rparr>)"
    by (rule joinRoom_direct)
  show "outbound (joinRoom B u w) = outbound w @ [(now w, JoinRoom B (safeUser u))]"
    by (simp add: j actuallyJoinRoom_outbound)
  show "timers (joinRoom B u w) = timers w"
    by (simp add: j actuallyJoinRoom_timers)
qed

theorem joinRoom_leave_before_join_witness:
  "currentRoomId (initial_world\<lparr>currentRoomId := Some ''A''\<rparr>) = Some ''A''
   \<and> truthy (Some ''A'') \<and> ''A'' \<noteq> ''B''
   \<and> timers (initial_world\<lparr>currentRoomId := Some ''A''\<rparr>) = []
   \<and> outbound (joinRoom ''B'' None (initial_world\<lparr>currentRoomId := Some ''A''\<rparr>))
       = [(0, LeaveRoom ''A'')]
   \<and> outbound (elapse 99 (joinRoom ''B'' None (initial_world\<lparr>currentRoomId := Some ''A''\<rparr>)))
       = [(0, LeaveRoom ''A'')]
   \<and> outbound (elapse 100 (joinRoom ''B'' None (initial_world\<lparr>currentRoomId := Some ''A''\<rparr>)))
       = [(0, LeaveRoom ''A''), (100, JoinRoom ''B'' None)]
   \<and> outbound (joinRoom ''B'' None initial_world) = [(0, JoinRoom ''B'' None)]"
proof -
  let ?w = "initial_world\<lparr>currentRoomId := Some ''A''\<rparr>"
  have h: "currentRoomId ?w = Some ''A'' \<and> truthy (Some ''A'') \<and> ''A'' \<noteq> ''B''"
    by (simp add: truthy_def)
  have e: "timers ?w = []" by (simp add: initial_world_def)
  have o: "outbound ?w = []" and n: "now ?w = 0" by (simp_all add: initial_world_def)
  from joinRoom_leave_before_join [of ?w "''A''" "''B''" None] h e have
    a: "outbound (joinRoom ''B'' None ?w) = outbound ?w @ [(now ?w, LeaveRoom ''A'')]" and
    b: "\<forall>d < 100. outbound (elapse d (joinRoom ''B'' None ?w))
          = outbound ?w @ [(now ?w, LeaveRoom ''A'')]" and
    c: "\<forall>d \<ge> 100. outbound (elapse d (joinRoom ''B'' None ?w))
          = outbound ?w @ [(now ?w, LeaveRoom ''A''), (now ?w + 100, JoinRoom ''B'' (safeUser None))]"
    by blast+
  from b have b': "outbound (elapse 99 (joinRoom ''B'' None ?w))
          = outbound ?w @ [(now ?w, LeaveRoom ''A'')]" by simp
  from c have c': "outbound (elapse 100 (joinRoom ''B'' None ?w))
          = outbound ?w @ [(now ?w, LeaveRoom ''A''), (now ?w + 100, JoinRoom ''B'' (safeUser None))]"
    by simp
  have g: "\<not> truthy (currentRoomId initial_world) \<or> currentRoomId initial_world = Some ''B''"
    by (simp add: initial_world_def truthy_def)
  from joinRoom_leave_before_join [of initial_world "''A''" "''B''" None] g have
    "outbound (joinRoom ''B'' None initial_world)
       = outbound initial_world @ [(now initial_world, JoinRoom ''B'' (safeUser None))]"
    by blast
  then have d: "outbound (joinRoom ''B'' None initial_world) = [(0, JoinRoom ''B'' None)]"
    by (simp add: initial_world_def safeUser_def)
  from a b' c' d h e show ?thesis
    by (simp add: o n safeUser_def)
qed


section \<open>The current-room pointer\<close>

lemma deliver_room: "currentRoomId (deliver ev w) = currentRoomId w"
  by (cases ev) simp_all

text \<open>
  Claim C8, as stated, fails: \<open>joinRoom\<close> on the freshly loaded client sets the pointer to
  the new room at once, while no event has been received; and the receipt of a snapshot
  does not set it.
\<close>

theorem pointer_set_before_snapshot_counterexample:
  "currentRoomId (joinRoom ''r1'' None initial_world) = Some ''r1''
   \<and> messages (joinRoom ''r1'' None initial_world) = messages initial_world
   \<and> currentRoomId (deliver (RoomHistory (mk_snapshot [] [])) initial_world) = None"
  by (simp add: joinRoom_def actuallyJoinRoom_def initSocket_def emit_def safeUser_def
      initial_world_def truthy_def Let_def)

text \<open>
  Claim C8, amended. The pointer is set to the new room when the join is issued:
  \<open>actuallyJoinRoom\<close> stores the room id and, on a socket, emits \<open>join-room\<close> for it. This
  happens during the call of \<open>joinRoom\<close> when no room is remembered or the room is the
  remembered one; when another room is remembered, the call leaves the pointer as it is,
  and the delayed join sets it when its timer fires. No inbound event, \<open>room-history\<close>
  included, changes the pointer, and neither does a connect or a failed reconnect.
\<close>

theorem pointer_set_when_join_issued:
  "currentRoomId (actuallyJoinRoom B u w) = Some B
   \<and> (socket w \<longrightarrow>
        outbound (actuallyJoinRoom B u w) = outbound w @ [(now w, JoinRoom B (safeUser u))])
   \<and> (\<not> truthy (currentRoomId w) \<or> currentRoomId w = Some B \<longrightarrow>
        currentRoomId (joinRoom B u w) = Some B)
   \<and> (truthy (currentRoomId w) \<and> currentRoomId w \<noteq> Some B \<longrightarrow>
        currentRoomId (joinRoom B u w) = currentRoomId w)
   \<and> currentRoomId (fire (DelayedJoin B u) w) = Some B
   \<and> currentRoomId (deliver ev w) = currentRoomId w
   \<and> currentRoomId (on_connect w) = currentRoomId w
   \<and> currentRoomId (on_reconnect_failed w) = currentRoomId w"
proof (intro conjI impI)
  show "currentRoomId (actuallyJoinRoom B u w) = Some B"
    by (rule actuallyJoinRoom_room)
  show "currentRoomId (fire (DelayedJoin B u) w) = Some B"
    by (simp add: actuallyJoinRoom_room)
  show "currentRoomId (deliver ev w) = currentRoomId w"
    by (rule deliver_room)
  show "currentRoomId (on_connect w) = currentRoomId w"
    by (simp add: on_connect_def emit_def)
  show "currentRoomId (on_reconnect_failed w) = currentRoomId w"
    by (simp add: on_reconnect_failed_def)
next
  assume "socket w"
  then show "outbound (actuallyJoinRoom B u w) = outbound w @ [(now w, JoinRoom B (safeUser u))]"
    by (rule actuallyJoinRoom_outbound)
next
  assume "\<not> truthy (currentRoomId w) \<or> currentRoomId w = Some B"
  then have "joinRoom B u w = actuallyJoinRoom B u (w\<lparr>socket := True\<rparr>)"
    by (rule joinRoom_direct)
  then show "currentRoomId (joinRoom B u w) = Some B"
    by (simp add: actuallyJoinRoom_room)
next
  assume h: "truthy (currentRoomId w) \<and> currentRoomId w \<noteq> Some B"
  then obtain A where A: "currentRoomId w = Some A"
    by (cases "currentRoomId w") (simp_all add: truthy_def)
  with h have "truthy (Some A)" and "A \<noteq> B" by simp_all
  with A show "currentRoomId (joinRoom B u w) = currentRoomId w"
    by (simp add: joinRoom_delayed)
qed

theorem pointer_set_when_join_issued_witness:
  "currentRoomId (joinRoom ''B'' None initial_world) = Some ''B''
   \<and> currentRoomId (joinRoom ''B'' None (initial_world\<lparr>currentRoomId := Some ''A''\<rparr>)) = Some ''A''
   \<and> currentRoomId (fire (DelayedJoin ''B'' None) (initial_world\<lparr>currentRoomId := Some ''A''\<rparr>))
       = Some ''B''
   \<and> currentRoomId (deliver (RoomHistory (mk_snapshot [] []))
        (initial_world\<lparr>currentRoomId := Some ''A''\<rparr>)) = Some ''A''"
proof -
  let ?w = "initial_world\<lparr>currentRoomId := Some ''A''\<rparr>"
  have g: "\<not> truthy (currentRoomId initial_world) \<or> currentRoomId initial_world = Some ''B''"
    by (simp add: initial_world_def truthy_def)
  have h: "truthy (currentRoomId ?w) \<and> currentRoomId ?w \<noteq> Some ''B''"
    by (simp add: truthy_def)
  from pointer_set_when_join_issued [of "''B''" None initial_world] g
  have a: "currentRoomId (joinRoom ''B'' None initial_world) = Some ''B''" by blast
  from pointer_set_when_join_issued [of "''B''" None ?w "RoomHistory (mk_snapshot [] [])"] h
  have b: "currentRoomId (joinRoom ''B'' None ?w) = currentRoomId ?w"
    and c: "currentRoomId (fire (DelayedJoin ''B'' None) ?w) = Some ''B''"
    and d: "currentRoomId (deliver (RoomHistory (mk_snapshot [] [])) ?w) = currentRoomId ?w"
    by blast+
  from a b c d show ?thesis by simp
qed

section \<open>The typing debouncer\<close>

lemma keystroke_arms:
  assumes "roomId w = Some r" and "r \<noteq> []" and "js_trim v \<noteq> []"
    and "(timers w = [] \<and> typingTimeoutRef w = None)
         \<or> (\<exists>t. timers w = [t] \<and> typingTimeoutRef w = Some (tm_id t))"
  shows "armed r (handleInputChange v w)
       \<and> outbound (handleInputChange v w) = outbound w @ [(now w, UserTyping r)]
       \<and> now (handleInputChange v w) = now w"
  using assms
  by (cases "socket w")
    (auto simp: handleInputChange_def armed_def truthy_def sendTypingIndicator_def emit_def
      initSocket_def clearTimeout_def setTimeout_def Let_def)

lemma armed_wait:
  assumes "armed r w" and "g < 2000"
  shows "elapse g w = w\<lparr>now := now w + g\<rparr>"
proof -
  from assms(1) obtain i where
    t: "timers w = [\<lparr>tm_id = i, tm_due = now w + 2000, tm_action = TypingIdle (Some r)\<rparr>]"
    by (auto simp: armed_def split: option.splits)
  have "run_until (now w + g) w = w"
    using t assms(2) by (intro run_until_single_late [OF t]) simp
  then show ?thesis by (simp add: elapse_def)
qed

lemma armed_fire:
  assumes "armed r w" and "r \<noteq> []" and "2000 \<le> d"
  shows "elapse d w =
           w\<lparr>now := now w + d, timers := [], typingTimeoutRef := None,
             outbound := outbound w @ [(now w + 2000, UserStoppedTyping r)]\<rparr>"
proof -
  from assms(1) obtain i where
    t: "timers w = [\<lparr>tm_id = i, tm_due = now w + 2000, tm_action = TypingIdle (Some r)\<rparr>]"
    and s: "socket w"
    by (auto simp: armed_def split: option.splits)
  have "run_until (now w + d) w
        = fire (TypingIdle (Some r)) (w\<lparr>now := max (now w) (now w + 2000), timers := []\<rparr>)"
    using run_until_single_due [OF t, of "now w + d"] assms(3) by simp
  then show ?thesis
    using s assms(2)
    by (simp add: elapse_def truthy_def sendStoppedTypingIndicator_def emit_def Let_def)
qed

lemma elapse_no_timers: "timers w = [] \<Longrightarrow> elapse g w = w\<lparr>now := now w + g\<rparr>"
  by (simp add: elapse_def run_until_no_timers)

lemma type_keys_snoc:
  "type_keys (ks @ [(g, v)]) w = handleInputChange v (elapse g (type_keys ks w))"
  by (simp add: type_keys_def)

lemma type_keys_armed:
  assumes "roomId w = Some r" and "r \<noteq> []" and "timers w = []" and "typingTimeoutRef w = None"
  shows "ks \<noteq> [] \<Longrightarrow> \<forall>(g, v) \<in> set ks. js_trim v \<noteq> [] \<Longrightarrow> \<forall>(g, v) \<in> set (tl ks). g < 2000 \<Longrightarrow>
         armed r (type_keys ks w)
       \<and> (\<exists>ts. outbound (type_keys ks w) = outbound w @ map (\<lambda>t. (t, UserTyping r)) ts
              \<and> length ts = length ks)"
proof (induction ks rule: rev_induct)
  case Nil
  then show ?case by simp
next
  case (snoc k ks)
  obtain g v where k: "k = (g, v)" by (cases k)
  from snoc.prems(2) k have v: "js_trim v \<noteq> []" by simp
  show ?case
  proof (cases "ks = []")
    case True
    have e: "elapse g w = w\<lparr>now := now w + g\<rparr>"
      using assms(3) by (rule elapse_no_timers)
    have "armed r (handleInputChange v (elapse g w))
        \<and> outbound (handleInputChange v (elapse g w)) = outbound (elapse g w) @ [(now (elapse g w), UserTyping r)]
        \<and> now (handleInputChange v (elapse g w)) = now (elapse g w)"
      using assms v by (intro keystroke_arms) (simp_all add: e)
    then have "armed r (type_keys [(g, v)] w)
        \<and> outbound (type_keys [(g, v)] w) = outbound w @ map (\<lambda>t. (t, UserTyping r)) [now w + g]"
      by (simp add: type_keys_def e)
    then show ?thesis
      unfolding True k by (intro conjI exI [of _ "[now w + g]"]) simp_all
  next
    case False
    with snoc.prems k have g: "g < 2000" and
      vs: "\<forall>(g, v) \<in> set ks. js_trim v \<noteq> []" and gs: "\<forall>(g, v) \<in> set (tl ks). g < 2000"
      by auto
    let ?W = "type_keys ks w"
    from snoc.IH [OF False vs gs] obtain ts where
      a: "armed r ?W" and
      o: "outbound ?W = outbound w @ map (\<lambda>t. (t, UserTyping r)) ts" and
      l: "length ts = length ks"
      by blast
    from a g have e: "elapse g ?W = ?W\<lparr>now := now ?W + g\<rparr>" by (rule armed_wait)
    from a obtain i where
      t: "timers ?W = [\<lparr>tm_id = i, tm_due = now ?W + 2000, tm_action = TypingIdle (Some r)\<rparr>]"
      and rf: "typingTimeoutRef ?W = Some i" and rm: "roomId ?W = Some r"
      by (auto simp: armed_def split: option.splits)
    have "armed r (handleInputChange v (elapse g ?W))
        \<and> outbound (handleInputChange v (elapse g ?W))
            = outbound (elapse g ?W) @ [(now (elapse g ?W), UserTyping r)]
        \<and> now (handleInputChange v (elapse g ?W)) = now (elapse g ?W)"
      using assms(2) v t rf rm by (intro keystroke_arms) (simp_all add: e)
    then have "armed r (type_keys (ks @ [(g, v)]) w)
        \<and> outbound (type_keys (ks @ [(g, v)]) w)
            = outbound w @ map (\<lambda>t. (t, UserTyping r)) (ts @ [now ?W + g])"
      by (simp add: type_keys_snoc e o)
    then show ?thesis
      unfolding k using l by (intro conjI exI [of _ "ts @ [now ?W + g]"]) simp_all
  qed
qed

lemma now_handleInputChange: "now (handleInputChange v w) = now w"
  by (simp add: handleInputChange_def sendTypingIndicator_def sendStoppedTypingIndicator_def
      emit_def initSocket_def clearTimeout_def setTimeout_def Let_def split: option.splits)

lemma now_elapse: "now (elapse g w) = now w + g"
  by (simp add: elapse_def)

lemma now_type_keys: "now (type_keys ks w) = now w + sum_list (map fst ks)"
proof (induction ks rule: rev_induct)
  case Nil
  show ?case by (simp add: type_keys_def)
next
  case (snoc k ks)
  obtain g v where k: "k = (g, v)" by (cases k)
  show ?case
    unfolding k type_keys_snoc by (simp add: now_handleInputChange now_elapse snoc.IH)
qed

lemma input_empty_stops:
  assumes "roomId w = Some r" and "r \<noteq> []" and "js_trim v = []"
  shows "outbound (handleInputChange v w) = outbound w @ [(now w, UserStoppedTyping r)]
       \<and> typingTimeoutRef (handleInputChange v w) = None
       \<and> timers (handleInputChange v w)
           = (case typingTimeoutRef w of
                None \<Rightarrow> timers w
              | Some i \<Rightarrow> filter (\<lambda>t. tm_id t \<noteq> i) (timers w))"
  using assms
  by (cases "socket w")
    (auto simp: handleInputChange_def truthy_def sendStoppedTypingIndicator_def emit_def
      initSocket_def clearTimeout_def Let_def split: option.splits)

lemma submit_stops:
  assumes "roomId w = Some r" and "r \<noteq> []" and "js_trim (inputValue w) \<noteq> []" and "\<not> isLoading w"
  shows "outbound (handleSubmit mid w)
           = outbound w @ [(now w, UserStoppedTyping r),
                           (now w, SendMessage r (Some mid) (inputValue w) User),
                           (now w, RequestAiResponse r (inputValue w))]
       \<and> typingTimeoutRef (handleSubmit mid w) = None
       \<and> timers (handleSubmit mid w)
           = (case typingTimeoutRef w of
                None \<Rightarrow> timers w
              | Some i \<Rightarrow> filter (\<lambda>t. tm_id t \<noteq> i) (timers w))"
  using assms
  by (cases "socket w")
    (auto simp: handleSubmit_def truthy_def sendStoppedTypingIndicator_def sendMessage_def
      requestAIResponse_def emit_def initSocket_def clearTimeout_def Let_def split: option.splits)

lemma blur_stops:
  assumes "roomId w = Some r" and "r \<noteq> []" and "typingTimeoutRef w = Some i"
  shows "outbound (onBlur w) = outbound w @ [(now w, UserStoppedTyping r)]
       \<and> typingTimeoutRef (onBlur w) = None
       \<and> timers (onBlur w) = filter (\<lambda>t. tm_id t \<noteq> i) (timers w)"
  using assms
  by (cases "socket w")
    (auto simp: onBlur_def truthy_def sendStoppedTypingIndicator_def emit_def
      initSocket_def clearTimeout_def Let_def)

lemma blur_without_timer: "typingTimeoutRef w = None \<Longrightarrow> onBlur w = w"
  by (simp add: onBlur_def)

lemma prefix_timers:
  assumes "roomId w = Some r" and "r \<noteq> []" and "timers w = []" and "typingTimeoutRef w = None"
    and "\<forall>(g, v) \<in> set ks. js_trim v \<noteq> []" and "\<forall>(g, v) \<in> set (tl ks). g < 2000"
  shows "length (timers (type_keys (take n ks) w)) \<le> 1"
proof (cases "take n ks = []")
  case True
  have "type_keys [] w = w" by (simp add: type_keys_def)
  then show ?thesis unfolding True using assms(3) by simp
next
  case False
  have "set (take n ks) \<subseteq> set ks" by (rule set_take_subset)
  with assms(5) have vs: "\<forall>(g, v) \<in> set (take n ks). js_trim v \<noteq> []" by blast
  have "tl (take n ks) = take (n - 1) (tl ks)" by (simp add: tl_take)
  then have "set (tl (take n ks)) \<subseteq> set (tl ks)" by (simp add: set_take_subset)
  with assms(6) have gs: "\<forall>(g, v) \<in> set (tl (take n ks)). g < 2000" by blast
  from type_keys_armed [OF assms(1-4) False vs gs]
  have "armed r (type_keys (take n ks) w)" by simp
  then show ?thesis by (auto simp: armed_def split: option.splits)
qed

text \<open>
  Claim C5, as stated, fails in two places. Losing the focus while no idle timer is pending
  emits nothing: the \<open>onBlur\<close> handler acts only when the ref holds a timer. And a keystroke
  whose content is not empty but blank (a single space) is handled as empty input: it emits
  \<open>user-stopped-typing\<close> at once and arms no timer.
\<close>

theorem typing_stop_counterexample:
  "typingTimeoutRef (initial_world\<lparr>roomId := Some ''r1''\<rparr>) = None
   \<and> outbound (onBlur (initial_world\<lparr>roomId := Some ''r1''\<rparr>)) = []
   \<and> outbound (handleInputChange '' '' (initial_world\<lparr>roomId := Some ''r1''\<rparr>))
       = [(0, UserStoppedTyping ''r1'')]
   \<and> timers (handleInputChange '' '' (initial_world\<lparr>roomId := Some ''r1''\<rparr>)) = []"
  by (simp add: onBlur_def handleInputChange_def js_trim_def is_space_def truthy_def
      sendStoppedTypingIndicator_def emit_def initSocket_def initial_world_def Let_def)

text \<open>
  Claim C5, amended. Let a room id be set, no timer be pending and the ref be empty. Let
  \<open>n \<ge> 1\<close> keystrokes follow whose contents are not blank (not empty after trimming), each
  but the first less than 2000 ms after the one before. Then at most one timer is pending
  after every keystroke; the keystrokes emit one \<open>user-typing\<close> each and no
  \<open>user-stopped-typing\<close>; the last keystroke happens at the start time plus the sum of the
  gaps; as long as less than 2000 ms have passed since the last keystroke nothing more is
  emitted; and once 2000 ms have passed exactly one \<open>user-stopped-typing\<close> has been emitted,
  at the time of the last keystroke plus 2000 ms, and no timer is pending.
  Further, while a room id is set: an input change to a blank content, and a submit of a
  non-blank input while no answer is awaited, cancel the timer that the ref holds, clear the
  ref and emit \<open>user-stopped-typing\<close> at once, whether or not a timer was pending; losing the
  focus does the same when the ref holds a timer, and changes nothing when it holds none.
\<close>

theorem typing_debounce:
  "(roomId w = Some r \<and> r \<noteq> [] \<and> timers w = [] \<and> typingTimeoutRef w = None \<and> ks \<noteq> []
      \<and> (\<forall>(g, v) \<in> set ks. js_trim v \<noteq> []) \<and> (\<forall>(g, v) \<in> set (tl ks). g < 2000) \<longrightarrow>
        (\<forall>n. length (timers (type_keys (take n ks) w)) \<le> 1)
      \<and> (\<exists>ts. outbound (type_keys ks w) = outbound w @ map (\<lambda>t. (t, UserTyping r)) ts
             \<and> length ts = length ks)
      \<and> now (type_keys ks w) = now w + sum_list (map fst ks)
      \<and> (\<forall>d < 2000. outbound (elapse d (type_keys ks w)) = outbound (type_keys ks w))
      \<and> (\<forall>d \<ge> 2000.
            outbound (elapse d (type_keys ks w))
              = outbound (type_keys ks w) @ [(now (type_keys ks w) + 2000, UserStoppedTyping r)]
          \<and> timers (elapse d (type_keys ks w)) = []
          \<and> typingTimeoutRef (elapse d (type_keys ks w)) = None))
   \<and> (roomId w = Some r \<and> r \<noteq> [] \<and> js_trim v = [] \<longrightarrow>
        outbound (handleInputChange v w) = outbound w @ [(now w, UserStoppedTyping r)]
      \<and> typingTimeoutRef (handleInputChange v w) = None
      \<and> timers (handleInputChange v w)
          = (case typingTimeoutRef w of
               None \<Rightarrow> timers w
             | Some i \<Rightarrow> filter (\<lambda>t. tm_id t \<noteq> i) (timers w)))
   \<and> (roomId w = Some r \<and> r \<noteq> [] \<and> js_trim (inputValue w) \<noteq> [] \<and> \<not> isLoading w \<longrightarrow>
        outbound (handleSubmit mid w)
          = outbound w @ [(now w, UserStoppedTyping r),
                          (now w, SendMessage r (Some mid) (inputValue w) User),
                          (now w, RequestAiResponse r (inputValue w))]
      \<and> typingTimeoutRef (handleSubmit mid w) = None
      \<and> timers (handleSubmit mid w)
          = (case typingTimeoutRef w of
               None \<Rightarrow> timers w
             | Some i \<Rightarrow> filter (\<lambda>t. tm_id t \<noteq> i) (timers w)))
   \<and> (roomId w = Some r \<and> r \<noteq> [] \<and> typingTimeoutRef w = Some i \<longrightarrow>
        outbound (onBlur w) = outbound w @ [(now w, UserStoppedTyping r)]
      \<and> typingTimeoutRef (onBlur w) = None
      \<and> timers (onBlur w) = filter (\<lambda>t. tm_id t \<noteq> i) (timers w))
   \<and> (typingTimeoutRef w = None \<longrightarrow> onBlur w = w)"
proof (intro conjI)
  show "roomId w = Some r \<and> r \<noteq> [] \<and> timers w = [] \<and> typingTimeoutRef w = None \<and> ks \<noteq> []
      \<and> (\<forall>(g, v) \<in> set ks. js_trim v \<noteq> []) \<and> (\<forall>(g, v) \<in> set (tl ks). g < 2000) \<longrightarrow>
        (\<forall>n. length (timers (type_keys (take n ks) w)) \<le> 1)
      \<and> (\<exists>ts. outbound (type_keys ks w) = outbound w @ map (\<lambda>t. (t, UserTyping r)) ts
             \<and> length ts = length ks)
      \<and> now (type_keys ks w) = now w + sum_list (map fst ks)
      \<and> (\<forall>d < 2000. outbound (elapse d (type_keys ks w)) = outbound (type_keys ks w))
      \<and> (\<forall>d \<ge> 2000.
            outbound (elapse d (type_keys ks w))
              = outbound (type_keys ks w) @ [(now (type_keys ks w) + 2000, UserStoppedTyping r)]
          \<and> timers (elapse d (type_keys ks w)) = []
          \<and> typingTimeoutRef (elapse d (type_keys ks w)) = None)"
  proof (intro impI)
    assume h: "roomId w = Some r \<and> r \<noteq> [] \<and> timers w = [] \<and> typingTimeoutRef w = None \<and> ks \<noteq> []
      \<and> (\<forall>(g, v) \<in> set ks. js_trim v \<noteq> []) \<and> (\<forall>(g, v) \<in> set (tl ks). g < 2000)"
    then have rm: "roomId w = Some r" and r: "r \<noteq> []" and e: "timers w = []"
      and rf: "typingTimeoutRef w = None" and ne: "ks \<noteq> []"
      and vs: "\<forall>(g, v) \<in> set ks. js_trim v \<noteq> []" and gs: "\<forall>(g, v) \<in> set (tl ks). g < 2000"
      by simp_all
    let ?W = "type_keys ks w"
    from type_keys_armed [OF rm r e rf ne vs gs] have
      a: "armed r ?W" and
      o: "\<exists>ts. outbound ?W = outbound w @ map (\<lambda>t. (t, UserTyping r)) ts \<and> length ts = length ks"
      by simp_all
    have p: "\<forall>n. length (timers (type_keys (take n ks) w)) \<le> 1"
      using prefix_timers [OF rm r e rf vs gs] by simp
    have early: "\<forall>d < 2000. outbound (elapse d ?W) = outbound ?W"
      using a by (simp add: armed_wait)
    have late: "\<forall>d \<ge> 2000.
            outbound (elapse d ?W) = outbound ?W @ [(now ?W + 2000, UserStoppedTyping r)]
          \<and> timers (elapse d ?W) = []
          \<and> typingTimeoutRef (elapse d ?W) = None"
      using a r by (simp add: armed_fire)
    from p o early late show
      "(\<forall>n. length (timers (type_keys (take n ks) w)) \<le> 1)
      \<and> (\<exists>ts. outbound ?W = outbound w @ map (\<lambda>t. (t, UserTyping r)) ts \<and> length ts = length ks)
      \<and> now ?W = now w + sum_list (map fst ks)
      \<and> (\<forall>d < 2000. outbound (elapse d ?W) = outbound ?W)
      \<and> (\<forall>d \<ge> 2000.
            outbound (elapse d ?W) = outbound ?W @ [(now ?W + 2000, UserStoppedTyping r)]
          \<and> timers (elapse d ?W) = []
          \<and> typingTimeoutRef (elapse d ?W) = None)"
      by (simp only: now_type_keys simp_thms)
  qed
next
  show "roomId w = Some r \<and> r \<noteq> [] \<and> js_trim v = [] \<longrightarrow>
        outbound (handleInputChange v w) = outbound w @ [(now w, UserStoppedTyping r)]
      \<and> typingTimeoutRef (handleInputChange v w) = None
      \<and> timers (handleInputChange v w)
          = (case typingTimeoutRef w of
               None \<Rightarrow> timers w
             | Some i \<Rightarrow> filter (\<lambda>t. tm_id t \<noteq> i) (timers w))"
    using input_empty_stops [of w r v] by blast
next
  show "roomId w = Some r \<and> r \<noteq> [] \<and> js_trim (inputValue w) \<noteq> [] \<and> \<not> isLoading w \<longrightarrow>
        outbound (handleSubmit mid w)
          = outbound w @ [(now w, UserStoppedTyping r),
                          (now w, SendMessage r (Some mid) (inputValue w) User),
                          (now w, RequestAiResponse r (inputValue w))]
      \<and> typingTimeoutRef (handleSubmit mid w) = None
      \<and> timers (handleSubmit mid w)
          = (case typingTimeoutRef w of
               None \<Rightarrow> timers w
             | Some i \<Rightarrow> filter (\<lambda>t. tm_id t \<noteq> i) (timers w))"
    using submit_stops [of w r mid] by blast
next
  show "roomId w = Some r \<and> r \<noteq> [] \<and> typingTimeoutRef w = Some i \<longrightarrow>
        outbound (onBlur w) = outbound w @ [(now w, UserStoppedTyping r)]
      \<and> typingTimeoutRef (onBlur w) = None
      \<and> timers (onBlur w) = filter (\<lambda>t. tm_id t \<noteq> i) (timers w)"
    using blur_stops [of w r i] by blast
next
  show "typingTimeoutRef w = None \<longrightarrow> onBlur w = w"
    by (simp add: blur_without_timer)
qed

lemma scenario_typed:
  "outbound (type_keys [(0, ''h''), (500, ''he''), (500, ''hel''), (500, ''hell'')]
      (initial_world\<lparr>roomId := Some ''r1''\<rparr>))
    = [(0, UserTyping ''r1''), (500, UserTyping ''r1''), (1000, UserTyping ''r1''),
       (1500, UserTyping ''r1'')]
   \<and> typingTimeoutRef (type_keys [(0, ''h''), (500, ''he''), (500, ''hel''), (500, ''hell'')]
      (initial_world\<lparr>roomId := Some ''r1''\<rparr>)) = Some 4
   \<and> roomId (type_keys [(0, ''h''), (500, ''he''), (500, ''hel''), (500, ''hell'')]
      (initial_world\<lparr>roomId := Some ''r1''\<rparr>)) = Some ''r1''"
  by code_simp

theorem typing_debounce_witness:
  "outbound (elapse 1999 (type_keys [(0, ''h''), (500, ''he''), (500, ''hel''), (500, ''hell'')]
      (initial_world\<lparr>roomId := Some ''r1''\<rparr>)))
    = [(0, UserTyping ''r1''), (500, UserTyping ''r1''), (1000, UserTyping ''r1''),
       (1500, UserTyping ''r1'')]
   \<and> outbound (elapse 2000 (type_keys [(0, ''h''), (500, ''he''), (500, ''hel''), (500, ''hell'')]
      (initial_world\<lparr>roomId := Some ''r1''\<rparr>)))
    = [(0, UserTyping ''r1''), (500, UserTyping ''r1''), (1000, UserTyping ''r1''),
       (1500, UserTyping ''r1''), (3500, UserStoppedTyping ''r1'')]
   \<and> outbound (onBlur (type_keys [(0, ''h''), (500, ''he''), (500, ''hel''), (500, ''hell'')]
      (initial_world\<lparr>roomId := Some ''r1''\<rparr>)))
    = [(0, UserTyping ''r1''), (500, UserTyping ''r1''), (1000, UserTyping ''r1''),
       (1500, UserTyping ''r1''), (1500, UserStoppedTyping ''r1'')]"
proof -
  let ?w = "initial_world\<lparr>roomId := Some ''r1''\<rparr>"
  let ?ks = "[(0::nat, ''h''), (500, ''he''), (500, ''hel''), (500, ''hell'')]"
  let ?W = "type_keys ?ks ?w"
  have h: "roomId ?w = Some ''r1'' \<and> ''r1'' \<noteq> [] \<and> timers ?w = [] \<and> typingTimeoutRef ?w = None
      \<and> ?ks \<noteq> [] \<and> (\<forall>(g, v) \<in> set ?ks. js_trim v \<noteq> []) \<and> (\<forall>(g, v) \<in> set (tl ?ks). g < 2000)"
    by (simp add: initial_world_def js_trim_def is_space_def)
  have n0: "now ?w = 0" by (simp add: initial_world_def)
  from typing_debounce [of ?w "''r1''" ?ks] h have
    n: "now ?W = now ?w + sum_list (map fst ?ks)" and
    early: "\<forall>d < 2000. outbound (elapse d ?W) = outbound ?W" and
    late: "\<forall>d \<ge> 2000. outbound (elapse d ?W)
             = outbound ?W @ [(now ?W + 2000, UserStoppedTyping ''r1'')]
           \<and> timers (elapse d ?W) = [] \<and> typingTimeoutRef (elapse d ?W) = None"
    by blast+
  from n have n': "now ?W = 1500" by (simp add: n0)
  from early have a: "outbound (elapse 1999 ?W) = outbound ?W" by simp
  from late have b: "outbound (elapse 2000 ?W)
      = outbound ?W @ [(now ?W + 2000, UserStoppedTyping ''r1'')]" by simp
  have g: "roomId ?W = Some ''r1'' \<and> ''r1'' \<noteq> [] \<and> typingTimeoutRef ?W = Some 4"
    using scenario_typed by simp
  from typing_debounce [of ?W "''r1''" _ _ _ 4] g have
    c: "outbound (onBlur ?W) = outbound ?W @ [(now ?W, UserStoppedTyping ''r1'')]"
    by blast
  from a b c show ?thesis
    by (simp add: n' scenario_typed)
qed

end
